theory Spec2Isabelle
  imports Complex_Main "HOL-Library.Sublist"
begin

section \<open>Common notions\<close>

text \<open>
  Texts are strings of code units; every marker the program looks for (\<open>/\<close>, \<open>*\<close>,
  the quote, the newline, letters and digits) is below 128, so a \<^typ>\<open>char\<close> stands for
  one code unit of a JavaScript string whose code units are below 256.

  A promise ends resolved with a value, rejected with an error, or is never settled.
\<close>

datatype 'a promise = Resolved 'a | Rejected string | Unsettled

fun is_rejected :: "'a promise \<Rightarrow> bool" where
  "is_rejected (Rejected e) = True"
| "is_rejected (Resolved v) = False"
| "is_rejected Unsettled = False"

section \<open>Config Templater: \<open>generateSalt\<close>\<close>

text \<open>
  \<^verbatim>\<open>const charset = 'abc...XYZ0123456789!@#$%^&*()-_=+[]{}|;:,.<>?/';\<close>
\<close>

definition charset :: string where
  "charset = ''abcdefghijklmnopqrstuvwxyzABCDEFGHIJKLMNOPQRSTUVWXYZ0123456789!@#$%^&*()-_=+[]{}|;:,.<>?/''"

definition saltLength :: nat where
  "saltLength = 64"

text \<open>
  \<^verbatim>\<open>charset[k]\<close> for an integer \<open>k\<close>: out of range the read is \<^verbatim>\<open>undefined\<close>, which
  \<^verbatim>\<open>join('')\<close> renders as the empty string.
\<close>

definition charset_at :: "int \<Rightarrow> string" where
  "charset_at k = (if 0 \<le> k \<and> k < int (length charset) then [charset ! nat k] else [])"

text \<open>
  \<^verbatim>\<open>Array.from({ length: saltLength }, () => charset[Math.floor(Math.random() * charset.length)]).join('')\<close>.
  \<^verbatim>\<open>Math.random\<close> is the sequence \<open>rnd\<close> of the numbers it returns: call \<open>i\<close> returns
  \<open>rnd i\<close>. The product is taken exactly (the rounding of the double product is not
  modelled; it is monotone and keeps a product below 89 below 89).
\<close>

definition generateSalt :: "(nat \<Rightarrow> real) \<Rightarrow> string" where
  "generateSalt rnd =
     concat (map (\<lambda>i. charset_at \<lfloor>rnd i * real (length charset)\<rfloor>) [0..<saltLength])"

section \<open>Archive Extractor: \<open>extractZip\<close>\<close>

text \<open>
  \<^verbatim>\<open>s.split('/')\<close>: the pieces between the separators; the empty string gives one
  empty piece. \<^verbatim>\<open>a.join('/')\<close>: the pieces with the separator between them.
  \<^verbatim>\<open>a[i]\<close> is \<^verbatim>\<open>undefined\<close> (\<open>None\<close>) out of range.
\<close>

fun split_on :: "char \<Rightarrow> string \<Rightarrow> string list" where
  "split_on d [] = [[]]"
| "split_on d (c # cs) =
     (if c = d then [] # split_on d cs
      else (case split_on d cs of w # ws \<Rightarrow> (c # w) # ws | [] \<Rightarrow> [[c]]))"

fun join_with :: "string \<Rightarrow> string list \<Rightarrow> string" where
  "join_with sep [] = []"
| "join_with sep [w] = w"
| "join_with sep (w # v # ws) = w @ sep @ join_with sep (v # ws)"

definition nth_opt :: "'a list \<Rightarrow> nat \<Rightarrow> 'a option" where
  "nth_opt xs i = (if i < length xs then Some (xs ! i) else None)"

text \<open>
  The loop of \<^verbatim>\<open>onEntry\<close>, from index \<open>i\<close> on, over the parts of the entry that are left:
  \<^verbatim>\<open>
  for (let i = 0; i < entryPathParts.length; i++) {
    if (commonRootPath.split('/')[i] !== entryPathParts[i]) {
      commonRootPath = commonRootPath.split('/').slice(0, i).join('/');
      break;
    }
  }\<close>
\<close>

fun narrow :: "string \<Rightarrow> nat \<Rightarrow> string list \<Rightarrow> string" where
  "narrow commonRootPath i [] = commonRootPath"
| "narrow commonRootPath i (part # parts) =
     (if nth_opt (split_on CHR ''/'' commonRootPath) i \<noteq> Some part
      then join_with ''/'' (take i (split_on CHR ''/'' commonRootPath))
      else narrow commonRootPath (Suc i) parts)"

text \<open>
  \<^verbatim>\<open>onEntry\<close> on the variable \<^verbatim>\<open>commonRootPath\<close> (\<open>None\<close> is \<^verbatim>\<open>undefined\<close>). The test
  \<^verbatim>\<open>!commonRootPath\<close> holds for \<^verbatim>\<open>undefined\<close> and for the empty string.
\<close>

definition onEntry :: "string option \<Rightarrow> string \<Rightarrow> string option" where
  "onEntry commonRootPath fileName =
     (let entryPathParts = split_on CHR ''/'' fileName in
      case commonRootPath of
        None \<Rightarrow> nth_opt entryPathParts 0
      | Some c \<Rightarrow> if c = [] then nth_opt entryPathParts 0 else Some (narrow c 0 entryPathParts))"

text \<open>
  The library call \<^verbatim>\<open>extract(zipFilePath, {dir, onEntry})\<close> is given by what it does: the
  file names of the entries it hands to \<^verbatim>\<open>onEntry\<close>, in archive order, and the error it
  rejects with, if any.
\<close>

record extract_run =
  delivered :: "string list"
  failure :: "string option"

datatype jsval = Undefined | Str string | ErrorValue string

text \<open>
  \<^verbatim>\<open>extractZip\<close> is an \<^verbatim>\<open>async\<close> function: what it returns resolves its promise. The
  \<^verbatim>\<open>catch\<close> block logs and executes \<^verbatim>\<open>return err\<close>.
\<close>

definition extractZip :: "extract_run \<Rightarrow> jsval promise" where
  "extractZip run =
     (let commonRootPath = foldl onEntry None (delivered run) in
      case failure run of
        None \<Rightarrow> Resolved (case commonRootPath of None \<Rightarrow> Undefined | Some c \<Rightarrow> Str c)
      | Some err \<Rightarrow> Resolved (ErrorValue err))"

section \<open>Path Resolver: \<open>getWordPressPaths\<close>\<close>

text \<open>
  The file system is a map from the path strings handed to \<^verbatim>\<open>fs\<close> to what is there.
  \<^verbatim>\<open>path.join\<close> is library code and a parameter \<open>pj\<close> of the model. The constants
  \<^verbatim>\<open>pkgFileName\<close> and \<^verbatim>\<open>defaultWpInstallFolder\<close> are imported from
  \<^verbatim>\<open>../constants.js\<close> and are parameters too.
\<close>

datatype node = File string | Dir "string list"

type_synonym filesystem = "string \<rightharpoonup> node"

definition existsSync :: "filesystem \<Rightarrow> string \<Rightarrow> bool" where
  "existsSync fs p = (fs p \<noteq> None)"

record wpmm_constants =
  pkgFileName :: string
  defaultWpInstallFolder :: string

record wpmm_config =
  config_name :: "string option"

record WPMMpaths =
  tempDir :: string
  baseFolder :: string
  pluginsFolder :: string
  themeFolder :: string

text \<open>
  \<^verbatim>\<open>function getWordPressPaths (config, rootFolder = process.cwd())\<close>: the argument is
  \<open>None\<close> when the caller leaves it out.
\<close>

definition getWordPressPaths ::
  "(string list \<Rightarrow> string) \<Rightarrow> filesystem \<Rightarrow> wpmm_constants \<Rightarrow> string
    \<Rightarrow> wpmm_config \<Rightarrow> string option \<Rightarrow> WPMMpaths" where
  "getWordPressPaths pj fs k cwd config rootFolderArg =
     (let rootFolder = (case rootFolderArg of None \<Rightarrow> cwd | Some r \<Rightarrow> r);
          baseFolder =
            (if \<not> existsSync fs (pj [rootFolder, ''wp-config.php''])
                \<and> \<not> existsSync fs (pj [rootFolder, pkgFileName k])
             then pj [rootFolder,
                      (case config_name config of Some n \<Rightarrow> n | None \<Rightarrow> defaultWpInstallFolder k)]
             else rootFolder)
      in \<lparr> tempDir = pj [rootFolder, ''temp''],
           baseFolder = baseFolder,
           pluginsFolder = pj [baseFolder, ''wp-content'', ''plugins''],
           themeFolder = pj [baseFolder, ''wp-content'', ''themes''] \<rparr>)"

section \<open>Regular expressions\<close>

text \<open>
  The regular expressions of the program are of a small fragment: literals (\<open>LitCI\<close> under
  the flag \<open>i\<close>, where a letter stands for both of its ASCII cases), one character of a
  class, sequence, alternative, a greedy or lazy star of a class, a greedy option, a
  capture group and the end of input. \<open>rx_run r s\<close> lists the ways \<open>r\<close> matches at the
  start of \<open>s\<close>, each with the input left and the groups captured, in the order in which
  a backtracking matcher tries them: its first element is the match the matcher
  returns.
\<close>

datatype rx =
    Lit string
  | LitCI string
  | Cls "char \<Rightarrow> bool"
  | Seq rx rx
  | Alt rx rx
  | StarG "char \<Rightarrow> bool"
  | StarL "char \<Rightarrow> bool"
  | Opt rx
  | Grp rx
  | Eoi

definition ci_eq :: "char \<Rightarrow> char \<Rightarrow> bool" where
  "ci_eq p c = (c = p
     \<or> (p, c) \<in> set (zip ''abcdefghijklmnopqrstuvwxyz'' ''ABCDEFGHIJKLMNOPQRSTUVWXYZ'')
     \<or> (c, p) \<in> set (zip ''abcdefghijklmnopqrstuvwxyz'' ''ABCDEFGHIJKLMNOPQRSTUVWXYZ''))"

fun rx_run :: "rx \<Rightarrow> string \<Rightarrow> (string \<times> string list) list" where
  "rx_run (Lit l) s = (if prefix l s then [(drop (length l) s, [])] else [])"
| "rx_run (LitCI l) s =
     (if length l \<le> length s \<and> list_all2 ci_eq l (take (length l) s)
      then [(drop (length l) s, [])] else [])"
| "rx_run (Cls p) s = (case s of c # cs \<Rightarrow> if p c then [(cs, [])] else [] | [] \<Rightarrow> [])"
| "rx_run (Seq a b) s =
     concat (map (\<lambda>(r, g). map (\<lambda>(r', g'). (r', g @ g')) (rx_run b r)) (rx_run a s))"
| "rx_run (Alt a b) s = rx_run a s @ rx_run b s"
| "rx_run (StarG p) s = map (\<lambda>k. (drop k s, [])) (rev [0..<Suc (length (takeWhile p s))])"
| "rx_run (StarL p) s = map (\<lambda>k. (drop k s, [])) [0..<Suc (length (takeWhile p s))]"
| "rx_run (Opt a) s = rx_run a s @ [(s, [])]"
| "rx_run (Grp a) s = map (\<lambda>(r, g). (r, take (length s - length r) s # g)) (rx_run a s)"
| "rx_run Eoi s = (if s = [] then [([], [])] else [])"

fun seqs :: "rx list \<Rightarrow> rx" where
  "seqs [] = Lit []"
| "seqs [r] = r"
| "seqs (r # rs) = Seq r (seqs rs)"

text \<open>
  \<^verbatim>\<open>regex.exec(s)\<close> from the start of \<open>s\<close>: the leftmost position with a match; the
  result is the text before the match, the text after it, and the groups.
\<close>

fun rx_search :: "rx \<Rightarrow> string \<Rightarrow> (string \<times> string \<times> string list) option" where
  "rx_search rx [] = (case rx_run rx [] of (r, g) # _ \<Rightarrow> Some ([], r, g) | [] \<Rightarrow> None)"
| "rx_search rx (c # cs) =
     (case rx_run rx (c # cs) of
        (r, g) # _ \<Rightarrow> Some ([], r, g)
      | [] \<Rightarrow> (case rx_search rx cs of Some (b, r, g) \<Rightarrow> Some (c # b, r, g) | None \<Rightarrow> None))"

lemma rx_run_length: "(r, g) \<in> set (rx_run rx s) \<Longrightarrow> length r \<le> length s"
proof (induction rx arbitrary: s r g)
  case (Seq a b)
  then show ?case by (fastforce dest: order_trans)
next
  case (Cls p)
  then show ?case by (auto split: list.splits if_splits)
qed (auto split: if_splits)

lemma rx_search_length:
  "rx_search rx s = Some (b, r, g) \<Longrightarrow> length b + length r \<le> length s"
proof (induction s arbitrary: b r g)
  case Nil
  then show ?case
    using rx_run_length [of r g rx "[]"] by (auto split: list.splits)
next
  case (Cons c cs)
  show ?case
  proof (cases "rx_run rx (c # cs)")
    case Nil
    with Cons show ?thesis by (auto split: option.splits)
  next
    case (Cons m ms)
    obtain r' g' where m: "m = (r', g')" by (cases m)
    have "(r', g') \<in> set (rx_run rx (c # cs))" using Cons m by simp
    from rx_run_length [OF this] Cons m Cons.prems show ?thesis by simp
  qed
qed

text \<open>
  \<^verbatim>\<open>[...s.matchAll(regex)]\<close> for a regex with the flag \<open>g\<close>: the groups of the matches
  from left to right, each search starting where the last match ended (one code unit
  further after an empty match).
\<close>

function rx_matchAll :: "rx \<Rightarrow> string \<Rightarrow> string list list" where
  "rx_matchAll rx s =
     (case rx_search rx s of
        None \<Rightarrow> []
      | Some (b, r, g) \<Rightarrow>
          g # (if length b + length r < length s then rx_matchAll rx r
               else (case r of [] \<Rightarrow> [] | c # cs \<Rightarrow> rx_matchAll rx cs)))"
  by pat_completeness auto
termination
  by (relation "measure (\<lambda>(rx, s). length s)") (auto dest: rx_search_length)

declare rx_matchAll.simps [simp del]

text \<open>
  \<^verbatim>\<open>s.replace(regex, replacement)\<close> for a regex without the flag \<open>g\<close> and a replacement
  free of \<open>$\<close> patterns: the first match is replaced.
\<close>

definition js_replace :: "rx \<Rightarrow> string \<Rightarrow> string \<Rightarrow> string" where
  "js_replace rx replacement s =
     (case rx_search rx s of
        None \<Rightarrow> s
      | Some (before, after, g) \<Rightarrow> before @ replacement @ after)"

text \<open>The classes \<^verbatim>\<open>\s\<close>, \<^verbatim>\<open>[\d.]\<close>, \<^verbatim>\<open>[^']\<close>, \<^verbatim>\<open>["']\<close>, \<^verbatim>\<open>.\<close>,
  \<^verbatim>\<open>[a-zA-Z_\x7f-\xff]\<close> and \<^verbatim>\<open>[a-zA-Z0-9_\x7f-\xff]\<close>, on code units below 256.\<close>

definition is_space :: "char \<Rightarrow> bool" where
  "is_space c = (c \<in> set [CHR 0x09, CHR 0x0A, CHR 0x0B, CHR 0x0C, CHR 0x0D, CHR 0x20, CHR 0xA0])"

definition is_digit_or_dot :: "char \<Rightarrow> bool" where
  "is_digit_or_dot c = (c \<in> set ''0123456789.'')"

definition not_squote :: "char \<Rightarrow> bool" where
  "not_squote c = (c \<noteq> CHR 0x27)"

definition is_quote :: "char \<Rightarrow> bool" where
  "is_quote c = (c = CHR 0x22 \<or> c = CHR 0x27)"

definition not_quote :: "char \<Rightarrow> bool" where
  "not_quote c = (c \<noteq> CHR 0x22 \<and> c \<noteq> CHR 0x27)"

definition is_dot :: "char \<Rightarrow> bool" where
  "is_dot c = (c \<noteq> CHR 0x0A \<and> c \<noteq> CHR 0x0D)"

definition ident_start :: "char \<Rightarrow> bool" where
  "ident_start c =
     (let n = (of_char c :: nat)
      in (97 \<le> n \<and> n \<le> 122) \<or> (65 \<le> n \<and> n \<le> 90) \<or> n = 95 \<or> 127 \<le> n)"

definition ident_char :: "char \<Rightarrow> bool" where
  "ident_char c =
     (let n = (of_char c :: nat)
      in (97 \<le> n \<and> n \<le> 122) \<or> (65 \<le> n \<and> n \<le> 90) \<or> (48 \<le> n \<and> n \<le> 57)
         \<or> n = 95 \<or> 127 \<le> n)"

section \<open>PHP Declaration Parser: \<open>uncommentedLines\<close> and \<open>parseWpConfig\<close>\<close>

text \<open>\<^verbatim>\<open>s.indexOf(needle)\<close>: the first index where \<open>needle\<close> starts, \<open>None\<close> for \<open>-1\<close>.\<close>

fun index_of :: "string \<Rightarrow> string \<Rightarrow> nat option" where
  "index_of needle [] = (if needle = [] then Some 0 else None)"
| "index_of needle (c # cs) =
     (if prefix needle (c # cs) then Some 0 else map_option Suc (index_of needle cs))"

text \<open>
  The body of the loop of \<^verbatim>\<open>uncommentedLines\<close> on one line: from the flag
  \<^verbatim>\<open>inBlockComment\<close> and the line to the new flag and \<^verbatim>\<open>newLine\<close>. With non-negative
  arguments \<^verbatim>\<open>substr(n)\<close> and \<^verbatim>\<open>slice(n)\<close> drop \<open>n\<close> code units and \<^verbatim>\<open>slice(0, n)\<close> takes
  \<open>n\<close>.
\<close>

definition strip_line :: "bool \<Rightarrow> string \<Rightarrow> bool \<times> string" where
  "strip_line inBlockComment line =
     (let (inBlockComment1, newLine1) =
            (if inBlockComment then
               (case index_of ''*/'' line of
                  Some endCommentIndex \<Rightarrow> (False, drop (endCommentIndex + 2) line)
                | None \<Rightarrow> (True, []))
             else (False, line))
      in if \<not> inBlockComment1 then
           (let startCommentIndex = index_of ''/*'' newLine1;
                endCommentIndex = index_of ''*/'' newLine1;
                (inBlockComment2, newLine2) =
                  (case startCommentIndex of
                     Some st \<Rightarrow>
                       (case endCommentIndex of
                          Some en \<Rightarrow> (False, take st newLine1 @ drop (en + 2) newLine1)
                        | None \<Rightarrow> (True, take st newLine1))
                   | None \<Rightarrow> (False, newLine1));
                newLine3 =
                  (case index_of ''//'' newLine2 of
                     Some lineCommentIndex \<Rightarrow> take lineCommentIndex newLine2
                   | None \<Rightarrow> newLine2)
            in (inBlockComment2, newLine3))
         else (inBlockComment1, newLine1))"

fun strip_lines :: "bool \<Rightarrow> string \<Rightarrow> string list \<Rightarrow> string" where
  "strip_lines inBlockComment uncommented [] = uncommented"
| "strip_lines inBlockComment uncommented (line # lines) =
     (case strip_line inBlockComment line of
        (inBlockComment', newLine) \<Rightarrow>
          strip_lines inBlockComment' (uncommented @ newLine @ [CHR 0x0A]) lines)"

definition uncommentedLines :: "string \<Rightarrow> string" where
  "uncommentedLines content = strip_lines False [] (split_on CHR 0x0A content)"

text \<open>
  \<^verbatim>\<open>/define\(\s*'([^']*)'\s*,\s*'([^']*)'\s*\);/gi\<close> and
  \<^verbatim>\<open>/\$([a-zA-Z_\x7f-\xff][a-zA-Z0-9_\x7f-\xff]*)\s*=\s*["']?(.*?[^"'])["']?(?:;|\?>|\s+\?>|$)/g\<close>
\<close>

definition defineRegex :: rx where
  "defineRegex =
     seqs [LitCI ''define('', StarG is_space, Lit [CHR 0x27], Grp (StarG not_squote),
           Lit [CHR 0x27], StarG is_space, Lit '','', StarG is_space, Lit [CHR 0x27],
           Grp (StarG not_squote), Lit [CHR 0x27], StarG is_space, Lit '');'']"

definition variableRegex :: rx where
  "variableRegex =
     seqs [Lit ''$'', Grp (Seq (Cls ident_start) (StarG ident_char)), StarG is_space,
           Lit ''='', StarG is_space, Opt (Cls is_quote),
           Grp (Seq (StarL is_dot) (Cls not_quote)), Opt (Cls is_quote),
           Alt (Lit '';'')
             (Alt (Lit ''?>'') (Alt (Seq (Cls is_space) (Seq (StarG is_space) (Lit ''?>''))) Eoi))]"

text \<open>
  \<^verbatim>\<open>obj[key] = value\<close> on an object made by \<^verbatim>\<open>{}\<close>, with a string for value: an own
  property is written, but for the key \<^verbatim>\<open>__proto__\<close>, which names the accessor inherited
  from \<^verbatim>\<open>Object.prototype\<close>; its setter ignores a value that is not an object and the
  object stays as it is.
\<close>

type_synonym js_object = "string \<rightharpoonup> string"

definition set_property :: "js_object \<Rightarrow> string \<Rightarrow> string \<Rightarrow> js_object" where
  "set_property obj key val = (if key = ''__proto__'' then obj else obj(key \<mapsto> val))"

text \<open>
  \<^verbatim>\<open>matches.forEach(match => { const key = match[1]; obj[key] = match[2]; })\<close>: the groups
  of a match are \<^verbatim>\<open>match[1]\<close> and \<^verbatim>\<open>match[2]\<close>; both regular expressions have two
  groups, which take part in every match.
\<close>

fun match_pair :: "string list \<Rightarrow> (string \<times> string) option" where
  "match_pair (k # v # gs) = Some (k, v)"
| "match_pair gs = None"

fun assign_matches :: "js_object \<Rightarrow> string list list \<Rightarrow> js_object" where
  "assign_matches obj [] = obj"
| "assign_matches obj (match # matches) =
     (case match_pair match of
        Some (key, val) \<Rightarrow> assign_matches (set_property obj key val) matches
      | None \<Rightarrow> assign_matches obj matches)"

datatype fs_error = ENOENT string | ENOTDIR string | EISDIR string

definition readFileSync :: "filesystem \<Rightarrow> string \<Rightarrow> fs_error + string" where
  "readFileSync fs p =
     (case fs p of
        None \<Rightarrow> Inl (ENOENT p)
      | Some (Dir names) \<Rightarrow> Inl (EISDIR p)
      | Some (File content) \<Rightarrow> Inr content)"

record parsed_config =
  constants :: js_object
  variables :: js_object

text \<open>
  \<^verbatim>\<open>parseWpConfig\<close>: \<open>None\<close> is the \<^verbatim>\<open>null\<close> of the \<^verbatim>\<open>catch\<close> block.
\<close>

definition parseWpConfig ::
  "(string list \<Rightarrow> string) \<Rightarrow> filesystem \<Rightarrow> string \<Rightarrow> parsed_config option" where
  "parseWpConfig pj fs wpFolder =
     (let filePath = pj [wpFolder, ''wp-config.php''] in
      case readFileSync fs filePath of
        Inl error \<Rightarrow> None
      | Inr text \<Rightarrow>
          (let wpConfigContent = uncommentedLines text;
               constantMatches = rx_matchAll defineRegex wpConfigContent;
               variableMatches = rx_matchAll variableRegex wpConfigContent
           in Some \<lparr> constants = assign_matches Map.empty constantMatches,
                     variables = assign_matches Map.empty variableMatches \<rparr>))"

section \<open>Config Templater: \<open>replaceDbConstant\<close>\<close>

text \<open>
  \<^verbatim>\<open>new RegExp(`define\\(\\s*'${constantName}'\\s*,\\s*'[^']*'\\s*\\);`)\<close>, for a constant
  name of letters, digits and underscores (it then stands for itself in the pattern),
  and the replacement \<^verbatim>\<open>`define( '${constantName}', '${userDefinedValue}' );`\<close>, for a
  value without \<open>$\<close>.
\<close>

definition dbConstantRegex :: "string \<Rightarrow> rx" where
  "dbConstantRegex constantName =
     seqs [Lit ''define('', StarG is_space, Lit ([CHR 0x27] @ constantName @ [CHR 0x27]),
           StarG is_space, Lit '','', StarG is_space, Lit [CHR 0x27], StarG not_squote,
           Lit [CHR 0x27], StarG is_space, Lit '');'']"

text \<open>The replacement, and a value between single quotes.\<close>

definition canonical_define :: "string \<Rightarrow> string \<Rightarrow> string" where
  "canonical_define constantName val =
     ''define( '' @ [CHR 0x27] @ constantName @ [CHR 0x27] @ '', '' @ [CHR 0x27] @ val
       @ [CHR 0x27] @ '' );''"

definition quoted :: "string \<Rightarrow> string" where
  "quoted val = [CHR 0x27] @ val @ [CHR 0x27]"

definition replaceDbConstant :: "string \<Rightarrow> string \<Rightarrow> string \<Rightarrow> string" where
  "replaceDbConstant configContent constantName userDefinedValue =
     js_replace (dbConstantRegex constantName)
       (canonical_define constantName userDefinedValue) configContent"

text \<open>The regular expression of \<open>replaceDbConstant\<close> matches at index \<open>i\<close> of the text.\<close>

definition define_starts_at :: "string \<Rightarrow> string \<Rightarrow> nat \<Rightarrow> bool" where
  "define_starts_at constantName configContent i =
     (rx_run (dbConstantRegex constantName) (drop i configContent) \<noteq> [])"

section \<open>Installation Scanner: \<open>Dump.scanDirectory\<close>\<close>

definition readdirSync :: "filesystem \<Rightarrow> string \<Rightarrow> fs_error + string list" where
  "readdirSync fs p =
     (case fs p of
        None \<Rightarrow> Inl (ENOENT p)
      | Some (File content) \<Rightarrow> Inl (ENOTDIR p)
      | Some (Dir names) \<Rightarrow> Inr names)"

text \<open>\<^verbatim>\<open>fs.statSync(p).isDirectory()\<close>\<close>

definition statSync_isDirectory :: "filesystem \<Rightarrow> string \<Rightarrow> fs_error + bool" where
  "statSync_isDirectory fs p =
     (case fs p of
        None \<Rightarrow> Inl (ENOENT p)
      | Some (File content) \<Rightarrow> Inr False
      | Some (Dir names) \<Rightarrow> Inr True)"

record InventoryItem =
  name :: string
  version :: string

text \<open>\<^verbatim>\<open>/Version:\s*([\d.]+)/i\<close>\<close>

definition versionRegex :: rx where
  "versionRegex =
     seqs [LitCI ''Version:'', StarG is_space,
           Grp (Seq (Cls is_digit_or_dot) (StarG is_digit_or_dot))]"

text \<open>
  \<^verbatim>\<open>extractVersionFromStyleFile\<close> and \<^verbatim>\<open>extractVersionFromPHPFile\<close> have the same body:
  \<^verbatim>\<open>match ? match[1] : null\<close>, with \<open>None\<close> for \<^verbatim>\<open>null\<close>; reading the file may throw.
\<close>

definition extractVersionFromStyleFile :: "filesystem \<Rightarrow> string \<Rightarrow> fs_error + string option" where
  "extractVersionFromStyleFile fs filePath =
     (case readFileSync fs filePath of
        Inl e \<Rightarrow> Inl e
      | Inr content \<Rightarrow>
          Inr (case rx_search versionRegex content of
                 Some (before, after, g) \<Rightarrow> nth_opt g 0
               | None \<Rightarrow> None))"

definition extractVersionFromPHPFile :: "filesystem \<Rightarrow> string \<Rightarrow> fs_error + string option" where
  "extractVersionFromPHPFile fs filePath =
     (case readFileSync fs filePath of
        Inl e \<Rightarrow> Inl e
      | Inr content \<Rightarrow>
          Inr (case rx_search versionRegex content of
                 Some (before, after, g) \<Rightarrow> nth_opt g 0
               | None \<Rightarrow> None))"

text \<open>\<^verbatim>\<open>if (version)\<close>: \<^verbatim>\<open>null\<close> and the empty string are falsy.\<close>

fun truthy :: "string option \<Rightarrow> bool" where
  "truthy None = False"
| "truthy (Some v) = (v \<noteq> [])"

text \<open>
  \<^verbatim>\<open>if (version) { result.push({ name: item, version }); }\<close>
\<close>

fun push_version :: "InventoryItem list \<Rightarrow> string \<Rightarrow> string option \<Rightarrow> InventoryItem list" where
  "push_version result item None = result"
| "push_version result item (Some v) =
     (if v \<noteq> [] then result @ [\<lparr> name = item, version = v \<rparr>] else result)"

text \<open>
  The body of the loop of \<^verbatim>\<open>scanDirectory\<close> for one \<^verbatim>\<open>item\<close>, on the \<^verbatim>\<open>result\<close> so far.
  An exception of \<^verbatim>\<open>fs\<close> ends the scan (\<open>Inl\<close>). \<^verbatim>\<open>pluginFile\<close> is the bare file name
  \<^verbatim>\<open>`${item}.php`\<close>, which \<^verbatim>\<open>fs\<close> resolves against the working directory.
\<close>

definition scan_item ::
  "(string list \<Rightarrow> string) \<Rightarrow> filesystem \<Rightarrow> string \<Rightarrow> string \<Rightarrow> InventoryItem list
    \<Rightarrow> fs_error + InventoryItem list" where
  "scan_item pj fs directory item result =
     (let fullPath = pj [directory, item] in
      case statSync_isDirectory fs fullPath of
        Inl e \<Rightarrow> Inl e
      | Inr isDirectory \<Rightarrow>
          if isDirectory then
            (let stylePath = pj [fullPath, ''style.css''];
                 themeFile = pj [fullPath, item @ ''.php''];
                 pluginFile = item @ ''.php''
             in case (if existsSync fs stylePath
                      then (case extractVersionFromStyleFile fs stylePath of
                              Inl e \<Rightarrow> Inl e
                            | Inr v \<Rightarrow> Inr (push_version result item v))
                      else Inr result) of
                  Inl e \<Rightarrow> Inl e
                | Inr result1 \<Rightarrow>
                    if existsSync fs themeFile \<or> existsSync fs pluginFile then
                      (case extractVersionFromPHPFile fs themeFile of
                         Inl e \<Rightarrow> Inl e
                       | Inr themeVersion \<Rightarrow>
                           if truthy themeVersion
                           then Inr (push_version result1 item themeVersion)
                           else (case extractVersionFromPHPFile fs pluginFile of
                                   Inl e \<Rightarrow> Inl e
                                 | Inr v \<Rightarrow> Inr (push_version result1 item v)))
                    else Inr result1)
          else Inr result)"

fun scan_items ::
  "(string list \<Rightarrow> string) \<Rightarrow> filesystem \<Rightarrow> string \<Rightarrow> string list \<Rightarrow> InventoryItem list
    \<Rightarrow> fs_error + InventoryItem list" where
  "scan_items pj fs directory [] result = Inr result"
| "scan_items pj fs directory (item # items) result =
     (case scan_item pj fs directory item result of
        Inl e \<Rightarrow> Inl e
      | Inr result' \<Rightarrow> scan_items pj fs directory items result')"

definition scanDirectory ::
  "(string list \<Rightarrow> string) \<Rightarrow> filesystem \<Rightarrow> string \<Rightarrow> fs_error + InventoryItem list" where
  "scanDirectory pj fs directory =
     (case readdirSync fs directory of
        Inl e \<Rightarrow> Inl e
      | Inr items \<Rightarrow> scan_items pj fs directory items [])"

text \<open>
  What a child of the scanned directory contributes, said without the loop: the version
  header of the file at a path (\<open>None\<close> when no file is there or it has no header); for a
  child directory, the item of its \<open>style.css\<close>, if that yields a version, followed by the
  item of its main PHP file (\<open><child>/<child>.php\<close>, or else \<open><child>.php\<close>), if that
  yields a version; nothing for a child that is not a directory.
\<close>

definition file_version :: "filesystem \<Rightarrow> string \<Rightarrow> string option" where
  "file_version fs p =
     (case fs p of
        Some (File content) \<Rightarrow>
          (case rx_search versionRegex content of
             Some (before, after, g) \<Rightarrow> nth_opt g 0
           | None \<Rightarrow> None)
      | Some (Dir names) \<Rightarrow> None
      | None \<Rightarrow> None)"

definition contribution ::
  "(string list \<Rightarrow> string) \<Rightarrow> filesystem \<Rightarrow> string \<Rightarrow> string \<Rightarrow> InventoryItem list" where
  "contribution pj fs directory item =
     (case fs (pj [directory, item]) of
        Some (Dir names) \<Rightarrow>
          push_version [] item (file_version fs (pj [pj [directory, item], ''style.css'']))
          @ push_version [] item
              (if truthy (file_version fs (pj [pj [directory, item], item @ ''.php'']))
               then file_version fs (pj [pj [directory, item], item @ ''.php''])
               else file_version fs (item @ ''.php''))
      | Some (File content) \<Rightarrow> []
      | None \<Rightarrow> [])"

section \<open>Asset Fetcher: \<open>downloadFile\<close>\<close>

text \<open>
  The network answers a \<^verbatim>\<open>https.get\<close> of a URL with a response (the callback runs) or
  with a transport error (the \<^verbatim>\<open>error\<close> event). The world is the file system and the
  trace of the requests sent and the write streams opened.
\<close>

record http_response =
  statusCode :: "nat option"
  statusMessage :: string
  location :: "string option"
  body :: string

datatype http_reply = Response http_response | TransportError string

type_synonym network = "string \<Rightarrow> http_reply"

datatype event = HttpGet string | CreateWriteStream string

record world =
  files :: filesystem
  trace :: "event list"

datatype fetched = ReturnedUndefined | EmptyObject

text \<open>
  \<^verbatim>\<open>throw new Error(error)\<close> in the \<^verbatim>\<open>catch\<close> block: the message of the new error is the
  caught error as a string, \<^verbatim>\<open>Error\<close> followed by its message if it has one.
\<close>

definition rethrown :: "string \<Rightarrow> string" where
  "rethrown message = (if message = [] then ''Error'' else ''Error: '' @ message)"

text \<open>
  \<^verbatim>\<open>resolve(await downloadFile(response.headers.location, targetFile))\<close> runs in the
  \<^verbatim>\<open>async\<close> callback of \<^verbatim>\<open>https.get\<close>: when the inner call rejects, the \<^verbatim>\<open>await\<close> throws
  in the callback, nothing calls \<^verbatim>\<open>resolve\<close> or \<^verbatim>\<open>reject\<close>, and the outer promise is never
  settled.
\<close>

fun through_callback :: "fetched promise \<Rightarrow> fetched promise" where
  "through_callback (Resolved v) = Resolved v"
| "through_callback (Rejected e) = Unsettled"
| "through_callback Unsettled = Unsettled"

text \<open>
  \<^verbatim>\<open>downloadFile\<close>. The recursion follows redirects without a bound, so the model takes
  fuel, one unit a call: \<open>None\<close> stands for a chain of redirects longer than the fuel. The
  write stream is taken to open the target file and to finish with the body written.
\<close>

fun downloadFile ::
  "nat \<Rightarrow> network \<Rightarrow> world \<Rightarrow> string \<Rightarrow> string \<Rightarrow> (fetched promise \<times> world) option" where
  "downloadFile 0 net w url targetFile = None"
| "downloadFile (Suc fuel) net w url targetFile =
     (if existsSync (files w) targetFile then Some (Resolved ReturnedUndefined, w)
      else
        (let w1 = w\<lparr> trace := trace w @ [HttpGet url] \<rparr> in
         case net url of
           TransportError message \<Rightarrow> Some (Rejected (rethrown message), w1)
         | Response response \<Rightarrow>
             (let code = (case statusCode response of Some c \<Rightarrow> c | None \<Rightarrow> 0) in
              if code \<ge> 400 then Some (Rejected (rethrown (statusMessage response)), w1)
              else if code > 300 \<and> code < 400 \<and> truthy (location response) then
                (case location response of
                   Some loc \<Rightarrow>
                     (case downloadFile fuel net w1 loc targetFile of
                        None \<Rightarrow> None
                      | Some (outcome, w2) \<Rightarrow> Some (through_callback outcome, w2))
                 | None \<Rightarrow> None)
              else
                Some (Resolved EmptyObject,
                      w1\<lparr> files := (files w1)(targetFile \<mapsto> File (body response)),
                          trace := trace w1 @ [CreateWriteStream targetFile] \<rparr>))))"

section \<open>Example inputs\<close>

text \<open>
  A themes folder: \<open>foo\<close> has a style sheet and a main PHP file, both with a version
  header; \<open>bar\<close> has a style sheet only; \<open>baz\<close> has neither; \<open>index.php\<close> is a file.
\<close>

definition themes_fs :: filesystem where
  "themes_fs =
     [''/wp/themes'' \<mapsto> Dir [''foo'', ''index.php'', ''bar'', ''baz''],
      ''/wp/themes/foo'' \<mapsto> Dir [''style.css'', ''foo.php''],
      ''/wp/themes/foo/style.css'' \<mapsto> File ''/* Theme Name: Foo Version: 2.3.1 */'',
      ''/wp/themes/foo/foo.php'' \<mapsto> File ''<?php /* Version: 2.3.1 */'',
      ''/wp/themes/index.php'' \<mapsto> File ''<?php // Silence is golden.'',
      ''/wp/themes/bar'' \<mapsto> Dir [''style.css''],
      ''/wp/themes/bar/style.css'' \<mapsto> File ''/* Theme Name: Bar version: 1.0 */'',
      ''/wp/themes/baz'' \<mapsto> Dir []]"


definition net302 :: network where
  "net302 url =
     (if url = ''https://a.example/wp.zip''
      then Response \<lparr> statusCode = Some 302, statusMessage = ''Found'',
             location = Some ''https://b.example/wp.zip'', body = ''moved'' \<rparr>
      else if url = ''https://b.example/wp.zip''
      then Response \<lparr> statusCode = Some 200, statusMessage = ''OK'', location = None,
             body = ''PK-zip'' \<rparr>
      else Response \<lparr> statusCode = Some 404, statusMessage = ''Not Found'', location = None,
             body = ''no such page'' \<rparr>)"


definition empty_world :: world where
  "empty_world = \<lparr> files = Map.empty, trace = [] \<rparr>"

text \<open>A configuration file that assigns twice to a variable named \<open>__proto__\<close>, and one
  that assigns twice to \<open>$dbname\<close> and defines \<open>DB_NAME\<close> twice.\<close>

definition proto_fs :: filesystem where
  "proto_fs = [''/wp/wp-config.php'' \<mapsto> File ''$__proto__ = 'a';$__proto__ = 'b';'']"

definition config_fs :: filesystem where
  "config_fs =
     [''/wp/wp-config.php'' \<mapsto>
        File ''define('DB_NAME','x');$dbname = 'a';define('DB_NAME','y');$dbname = 'b';'']"

section \<open>Theorems\<close>

subsection \<open>\<open>generateSalt\<close>\<close>

lemma length_charset: "length charset = 89"
  by (simp add: charset_def)

lemma distinct_charset: "distinct charset"
  by (simp add: charset_def)

lemma charset_at_in_range:
  assumes "0 \<le> r" and "r < 1"
  shows "\<exists>c \<in> set charset. charset_at \<lfloor>r * real (length charset)\<rfloor> = [c]"
proof -
  have lo: "0 \<le> \<lfloor>r * 89\<rfloor>"
    using assms(1) by simp
  have "r * 89 < 89"
    using assms(2) by simp
  then have hi: "\<lfloor>r * 89\<rfloor> < 89"
    by (simp add: floor_less_iff)
  from lo hi have "nat \<lfloor>r * 89\<rfloor> < 89"
    by linarith
  then have "nat \<lfloor>r * 89\<rfloor> < length charset"
    by (simp only: length_charset)
  then have "charset ! nat \<lfloor>r * 89\<rfloor> \<in> set charset"
    by (rule nth_mem)
  with lo hi show ?thesis
    by (simp add: charset_at_def length_charset)
qed

text \<open>
  C2, as stated, fails: the alphabet of \<open>generateSalt\<close> has 89 characters, not 94.
\<close>

theorem generateSalt_alphabet_not_94:
  "card (set charset) = 89 \<and> card (set charset) \<noteq> 94"
  by (simp add: distinct_card [OF distinct_charset] length_charset)

text \<open>
  C2, amended: whenever \<^verbatim>\<open>Math.random\<close> returns numbers in \<open>[0, 1)\<close>, the string returned by
  \<open>generateSalt\<close> has length exactly 64 and each of its characters is one of the 89
  distinct characters of \<open>charset\<close>.
\<close>

theorem generateSalt_length_and_alphabet:
  assumes rnd: "\<And>i. i < saltLength \<Longrightarrow> 0 \<le> rnd i \<and> rnd i < 1"
  shows "length (generateSalt rnd) = 64
    \<and> set (generateSalt rnd) \<subseteq> set charset
    \<and> card (set charset) = 89"
proof -
  have one: "\<exists>c \<in> set charset. charset_at \<lfloor>rnd i * real (length charset)\<rfloor> = [c]"
    if "i < saltLength" for i
    using rnd [OF that] by (simp add: charset_at_in_range)
  have len: "length (concat (map (\<lambda>i. charset_at \<lfloor>rnd i * real (length charset)\<rfloor>) [0..<n])) = n"
    if "n \<le> saltLength" for n
    using that
  proof (induction n)
    case 0
    then show ?case by simp
  next
    case (Suc n)
    then obtain c where "charset_at \<lfloor>rnd n * real (length charset)\<rfloor> = [c]"
      using one [of n] by auto
    with Suc show ?case by simp
  qed
  have sub: "set (generateSalt rnd) \<subseteq> set charset"
  proof
    fix x
    assume "x \<in> set (generateSalt rnd)"
    then obtain i where i: "i < saltLength"
      and x: "x \<in> set (charset_at \<lfloor>rnd i * real (length charset)\<rfloor>)"
      by (auto simp: generateSalt_def)
    from one [OF i] x show "x \<in> set charset" by auto
  qed
  have "length (generateSalt rnd) = 64"
    using len [of saltLength] by (simp add: generateSalt_def saltLength_def)
  with sub show ?thesis
    by (simp add: distinct_card [OF distinct_charset] length_charset)
qed

text \<open>
  Witness for C2: with every draw equal to \<open>1/2\<close> the index is 44 and the salt is 64
  times the letter \<open>S\<close>.
\<close>

theorem generateSalt_length_and_alphabet_witness:
  "length (generateSalt (\<lambda>i. 1 / 2)) = 64
    \<and> set (generateSalt (\<lambda>i. 1 / 2)) \<subseteq> set charset
    \<and> card (set charset) = 89"
  using generateSalt_length_and_alphabet [of "\<lambda>i. 1 / 2"] by simp

subsection \<open>\<open>extractZip\<close>\<close>

lemma split_on_not_Nil: "split_on d s \<noteq> []"
  by (induction s) (auto split: list.splits)

lemma split_on_no_sep: "d \<notin> set s \<Longrightarrow> split_on d s = [s]"
  by (induction s) auto

lemma hd_split_on_no_sep: "w \<in> set (split_on d s) \<Longrightarrow> d \<notin> set w"
  by (induction s arbitrary: w) (auto split: if_splits list.splits)

text \<open>An entry whose top-level segment is the candidate leaves the candidate as it is.\<close>

lemma narrow_same_root:
  assumes "CHR ''/'' \<notin> set c"
  shows "narrow c 0 (c # ps) = c"
proof -
  have sp: "split_on CHR ''/'' c = [c]"
    using assms by (rule split_on_no_sep)
  show ?thesis
    by (cases ps) (simp_all add: sp nth_opt_def)
qed

text \<open>An entry with another top-level segment empties the candidate.\<close>

lemma narrow_other_root:
  assumes "CHR ''/'' \<notin> set c" and "p \<noteq> c"
  shows "narrow c 0 (p # ps) = []"
  using assms by (simp add: split_on_no_sep nth_opt_def)

text \<open>
  The example of the specification: the entries \<open>pkg-1.0/a.txt\<close> and \<open>pkg-1.0/sub/b.txt\<close>
  give the root \<open>pkg-1.0\<close>.
\<close>

lemma extractZip_spec_example:
  "extractZip \<lparr> delivered = [''pkg-1.0/a.txt'', ''pkg-1.0/sub/b.txt''], failure = None \<rparr>
     = Resolved (Str ''pkg-1.0'')"
  by (simp add: extractZip_def onEntry_def nth_opt_def)

lemma onEntry_same_root:
  assumes "split_on CHR ''/'' e = seg # rest" and "seg \<noteq> []"
  shows "onEntry (Some seg) e = Some seg"
proof -
  have "seg \<in> set (split_on CHR ''/'' e)"
    using assms(1) by simp
  then have "CHR ''/'' \<notin> set seg"
    by (rule hd_split_on_no_sep)
  then have "narrow seg 0 (seg # rest) = seg"
    by (rule narrow_same_root)
  with assms show ?thesis
    by (simp add: onEntry_def)
qed

lemma foldl_onEntry_same_root:
  assumes "\<forall>e \<in> set es. \<exists>rest. split_on CHR ''/'' e = seg # rest" and "seg \<noteq> []"
  shows "foldl onEntry (Some seg) es = Some seg"
  using assms by (induction es) (auto simp: onEntry_same_root)

text \<open>
  Entries that all lie under one top-level folder give that folder; entries under two
  folders give the empty string; no entry gives \<^verbatim>\<open>undefined\<close>.
\<close>

lemma extractZip_common_top_level:
  assumes "es \<noteq> []" and "seg \<noteq> []"
    and "\<forall>e \<in> set es. \<exists>rest. split_on CHR ''/'' e = seg # rest"
  shows "extractZip \<lparr> delivered = es, failure = None \<rparr> = Resolved (Str seg)"
proof -
  from assms(1) obtain e es' where es: "es = e # es'"
    by (cases es) auto
  with assms(3) obtain rest where "split_on CHR ''/'' e = seg # rest"
    by auto
  then have "onEntry None e = Some seg"
    by (simp add: onEntry_def nth_opt_def)
  moreover have "foldl onEntry (Some seg) es' = Some seg"
    using assms(2,3) es by (intro foldl_onEntry_same_root) auto
  ultimately show ?thesis
    by (simp add: extractZip_def es)
qed

lemma extractZip_two_roots:
  "extractZip \<lparr> delivered = [''a/x.txt'', ''b/y.txt''], failure = None \<rparr> = Resolved (Str [])"
  by (simp add: extractZip_def onEntry_def nth_opt_def)

lemma extractZip_no_entries:
  "extractZip \<lparr> delivered = [], failure = None \<rparr> = Resolved Undefined"
  by (simp add: extractZip_def)

text \<open>
  C1, at the failing input: of the entries \<open>a/x.txt\<close>, \<open>b/y.txt\<close>, \<open>c/z.txt\<close> no two share
  an ancestor; the second empties the candidate and the third, meeting an empty
  candidate, starts it again, so that \<open>extractZip\<close> returns \<open>c\<close> where the claim has the
  empty string.
\<close>

theorem extractZip_restarts_after_empty:
  "extractZip \<lparr> delivered = [''a/x.txt'', ''b/y.txt'', ''c/z.txt''], failure = None \<rparr>
     = Resolved (Str ''c'')"
  by (simp add: extractZip_def onEntry_def nth_opt_def)

text \<open>
  C4, as stated, fails: when the extraction rejects (here with \<open>ENOENT\<close>, before any
  entry), \<open>extractZip\<close> does not reject; its promise resolves with the error as value.
\<close>

theorem extractZip_failure_not_rejected:
  "\<not> is_rejected (extractZip \<lparr> delivered = [], failure = Some ''ENOENT'' \<rparr>)"
  by (simp add: extractZip_def)

text \<open>
  C4, amended: whenever the underlying archive extraction fails with an error,
  \<open>extractZip\<close> catches it and completes normally: its promise resolves, with that error
  as the returned value.
\<close>

theorem extractZip_failure_resolves_with_error:
  "failure run = Some err \<Longrightarrow> extractZip run = Resolved (ErrorValue err)"
  by (simp add: extractZip_def)

text \<open>
  Witness for C4: an extraction that fails with \<open>EACCES\<close> after one entry.
\<close>

theorem extractZip_failure_resolves_with_error_witness:
  "extractZip \<lparr> delivered = [''pkg-1.0/a.txt''], failure = Some ''EACCES'' \<rparr>
     = Resolved (ErrorValue ''EACCES'')"
  using extractZip_failure_resolves_with_error
    [of "\<lparr> delivered = [''pkg-1.0/a.txt''], failure = Some ''EACCES'' \<rparr>" "''EACCES''"]
  by simp

subsection \<open>\<open>getWordPressPaths\<close>\<close>

text \<open>
  C8: for every configuration and root directory, the base folder is the root directory
  when the marker file \<open>pkgFileName\<close> (\<open>wp-package.json\<close>) or \<open>wp-config.php\<close> exists
  directly under it, and the root directory joined with the install name (the name of
  the configuration, or the default when it has none) when neither exists.
\<close>

theorem getWordPressPaths_baseFolder:
  "(existsSync fs (pj [rootDir, pkgFileName k]) \<or> existsSync fs (pj [rootDir, ''wp-config.php''])
      \<longrightarrow> baseFolder (getWordPressPaths pj fs k cwd config (Some rootDir)) = rootDir)
   \<and> (\<not> existsSync fs (pj [rootDir, pkgFileName k]) \<and> \<not> existsSync fs (pj [rootDir, ''wp-config.php''])
      \<longrightarrow> baseFolder (getWordPressPaths pj fs k cwd config (Some rootDir))
          = pj [rootDir, (case config_name config of Some n \<Rightarrow> n | None \<Rightarrow> defaultWpInstallFolder k)])"
  by (auto simp: getWordPressPaths_def Let_def)

text \<open>
  Witness for C8: under \<open>/srv/site\<close> the marker file exists and the base folder is
  \<open>/srv/site\<close>; under \<open>/srv/new\<close> nothing exists and the base folder of the configuration
  named \<open>myfolder\<close> is \<open>/srv/new/myfolder\<close>.
\<close>

theorem getWordPressPaths_baseFolder_witness:
  "baseFolder (getWordPressPaths (join_with ''/'') [''/srv/site/wp-package.json'' \<mapsto> File ''{}'']
      \<lparr> pkgFileName = ''wp-package.json'', defaultWpInstallFolder = ''wordpress'' \<rparr> ''/home''
      \<lparr> config_name = Some ''myfolder'' \<rparr> (Some ''/srv/site'')) = ''/srv/site''
   \<and> baseFolder (getWordPressPaths (join_with ''/'') [''/srv/site/wp-package.json'' \<mapsto> File ''{}'']
      \<lparr> pkgFileName = ''wp-package.json'', defaultWpInstallFolder = ''wordpress'' \<rparr> ''/home''
      \<lparr> config_name = Some ''myfolder'' \<rparr> (Some ''/srv/new'')) = ''/srv/new/myfolder''"
  using getWordPressPaths_baseFolder
      [of "[''/srv/site/wp-package.json'' \<mapsto> File ''{}'']" "join_with ''/''" "''/srv/site''"
        "\<lparr> pkgFileName = ''wp-package.json'', defaultWpInstallFolder = ''wordpress'' \<rparr>" "''/home''"
        "\<lparr> config_name = Some ''myfolder'' \<rparr>"]
    getWordPressPaths_baseFolder
      [of "[''/srv/site/wp-package.json'' \<mapsto> File ''{}'']" "join_with ''/''" "''/srv/new''"
        "\<lparr> pkgFileName = ''wp-package.json'', defaultWpInstallFolder = ''wordpress'' \<rparr>" "''/home''"
        "\<lparr> config_name = Some ''myfolder'' \<rparr>"]
  by (simp add: existsSync_def)


subsection \<open>\<open>scanDirectory\<close>\<close>

lemma push_version_adds:
  "\<exists>extra. push_version result item v = result @ extra \<and> length extra \<le> 1
     \<and> (\<forall>i \<in> set extra. name i = item)"
  by (cases v) auto

text \<open>One step of the scan appends at most two items, both named after the child.\<close>

lemma scan_item_adds:
  assumes "scan_item pj fs directory item result = Inr result'"
  shows "\<exists>extra. result' = result @ extra \<and> length extra \<le> 2 \<and> (\<forall>i \<in> set extra. name i = item)"
proof -
  have two: "\<exists>extra. push_version (push_version result item a) item b = result @ extra
      \<and> length extra \<le> 2 \<and> (\<forall>i \<in> set extra. name i = item)" for a b
  proof -
    obtain e1 where e1: "push_version result item a = result @ e1" "length e1 \<le> 1"
      "\<forall>i \<in> set e1. name i = item"
      using push_version_adds by blast
    obtain e2 where e2: "push_version (result @ e1) item b = (result @ e1) @ e2" "length e2 \<le> 1"
      "\<forall>i \<in> set e2. name i = item"
      using push_version_adds by blast
    show ?thesis
      by (rule exI [of _ "e1 @ e2"]) (use e1 e2 in auto)
  qed
  have one: "\<exists>extra. push_version result item a = result @ extra
      \<and> length extra \<le> 2 \<and> (\<forall>i \<in> set extra. name i = item)" for a
    using push_version_adds [of result item a] by (auto intro: le_trans)
  have none: "\<exists>extra. result = result @ extra
      \<and> length extra \<le> 2 \<and> (\<forall>i \<in> set extra. name i = item)"
    by (rule exI [of _ "[]"]) simp
  from assms show ?thesis
    unfolding scan_item_def Let_def
    by (auto split: sum.splits if_splits simp: two one none)
qed

lemma scan_items_count:
  assumes "scan_items pj fs directory items result = Inr result'"
  shows "length (filter (\<lambda>i. name i = child) result')
    \<le> length (filter (\<lambda>i. name i = child) result) + 2 * count_list items child"
  using assms
proof (induction items arbitrary: result)
  case Nil
  then show ?case by simp
next
  case (Cons item items)
  from Cons.prems obtain mid where mid: "scan_item pj fs directory item result = Inr mid"
    and rest: "scan_items pj fs directory items mid = Inr result'"
    by (auto split: sum.splits)
  from scan_item_adds [OF mid] obtain extra where extra: "mid = result @ extra"
    "length extra \<le> 2" "\<forall>i \<in> set extra. name i = item"
    by blast
  have "length (filter (\<lambda>i. name i = child) extra) \<le> (if item = child then 2 else 0)"
  proof (cases "item = child")
    case True
    have "length (filter (\<lambda>i. name i = child) extra) \<le> 2"
      by (rule le_trans [OF length_filter_le extra(2)])
    with True show ?thesis by simp
  next
    case False
    with extra(3) have "filter (\<lambda>i. name i = child) extra = []"
      by (auto simp: filter_empty_conv)
    then show ?thesis by simp
  qed
  with Cons.IH [OF rest] extra(1) show ?case
    by (auto split: if_splits)
qed

lemma scanDirectory_themes_fs:
  "scanDirectory (join_with ''/'') themes_fs ''/wp/themes''
     = Inr [\<lparr> name = ''foo'', version = ''2.3.1'' \<rparr>, \<lparr> name = ''foo'', version = ''2.3.1'' \<rparr>,
            \<lparr> name = ''bar'', version = ''1.0'' \<rparr>]"
  by (simp add: scanDirectory_def readdirSync_def scan_item_def statSync_isDirectory_def
      existsSync_def extractVersionFromStyleFile_def extractVersionFromPHPFile_def readFileSync_def
      versionRegex_def ci_eq_def is_space_def is_digit_or_dot_def nth_opt_def themes_fs_def)

text \<open>
  C7, as stated, fails: the child directory \<open>foo\<close>, whose \<open>style.css\<close> and \<open>foo.php\<close> both
  yield a version, contributes two items to the list.
\<close>

theorem scanDirectory_two_items_for_one_child:
  "\<exists>result. scanDirectory (join_with ''/'') themes_fs ''/wp/themes'' = Inr result
     \<and> length (filter (\<lambda>i. name i = ''foo'') result) = 2"
  by (simp add: scanDirectory_themes_fs)

lemma push_version_append: "push_version result item v = result @ push_version [] item v"
  by (cases v) auto

lemma extract_style_file_version:
  "extractVersionFromStyleFile fs p = Inr v \<Longrightarrow> v = file_version fs p"
  by (auto simp: extractVersionFromStyleFile_def readFileSync_def file_version_def
      split: option.splits node.splits)

lemma extract_php_file_version:
  "extractVersionFromPHPFile fs p = Inr v \<Longrightarrow> v = file_version fs p"
  by (auto simp: extractVersionFromPHPFile_def readFileSync_def file_version_def
      split: option.splits node.splits)

lemma file_version_absent: "\<not> existsSync fs p \<Longrightarrow> file_version fs p = None"
  by (simp add: existsSync_def file_version_def)

text \<open>A step of the scan that ends without an exception appends the contribution of the
  child.\<close>

lemma scan_item_contribution:
  assumes "scan_item pj fs directory item result = Inr result'"
  shows "result' = result @ contribution pj fs directory item"
proof (cases "fs (pj [directory, item])")
  case None
  with assms show ?thesis
    by (simp add: scan_item_def statSync_isDirectory_def)
next
  case (Some n)
  show ?thesis
  proof (cases n)
    case (File content)
    with Some assms show ?thesis
      by (simp add: scan_item_def statSync_isDirectory_def contribution_def)
  next
    case (Dir names)
    let ?full = "pj [directory, item]"
    let ?style = "pj [?full, ''style.css'']"
    let ?theme = "pj [?full, item @ ''.php'']"
    let ?plugin = "item @ ''.php''"
    define result1 where "result1 = result @ push_version [] item (file_version fs ?style)"
    have style: "(if existsSync fs ?style
                  then (case extractVersionFromStyleFile fs ?style of
                          Inl e \<Rightarrow> Inl e
                        | Inr v \<Rightarrow> Inr (push_version result item v))
                  else Inr result) = Inr r1 \<Longrightarrow> r1 = result1" for r1
      unfolding result1_def
      by (auto split: if_splits sum.splits dest!: extract_style_file_version
          simp: file_version_absent push_version_append [of result])
    have php: "(if existsSync fs ?theme \<or> existsSync fs ?plugin then
                  (case extractVersionFromPHPFile fs ?theme of
                     Inl e \<Rightarrow> Inl e
                   | Inr themeVersion \<Rightarrow>
                       if truthy themeVersion
                       then Inr (push_version r1 item themeVersion)
                       else (case extractVersionFromPHPFile fs ?plugin of
                               Inl e \<Rightarrow> Inl e
                             | Inr v \<Rightarrow> Inr (push_version r1 item v)))
                else Inr r1) = Inr r2 \<Longrightarrow>
        r2 = r1 @ push_version [] item
              (if truthy (file_version fs ?theme) then file_version fs ?theme
               else file_version fs ?plugin)" for r1 r2
      by (auto split: if_splits sum.splits dest!: extract_php_file_version
          simp: file_version_absent push_version_append [of r1])
    from assms Some Dir obtain r1 where
      s1: "(if existsSync fs ?style
                  then (case extractVersionFromStyleFile fs ?style of
                          Inl e \<Rightarrow> Inl e
                        | Inr v \<Rightarrow> Inr (push_version result item v))
                  else Inr result) = Inr r1"
      and s2: "(if existsSync fs ?theme \<or> existsSync fs ?plugin then
                  (case extractVersionFromPHPFile fs ?theme of
                     Inl e \<Rightarrow> Inl e
                   | Inr themeVersion \<Rightarrow>
                       if truthy themeVersion
                       then Inr (push_version r1 item themeVersion)
                       else (case extractVersionFromPHPFile fs ?plugin of
                               Inl e \<Rightarrow> Inl e
                             | Inr v \<Rightarrow> Inr (push_version r1 item v)))
                else Inr r1) = Inr result'"
      by (simp add: scan_item_def statSync_isDirectory_def Let_def split: sum.splits)
    from style [OF s1] php [OF s2] Some Dir show ?thesis
      by (simp add: contribution_def result1_def)
  qed
qed

lemma scan_items_contribution:
  assumes "scan_items pj fs directory items result = Inr result'"
  shows "result' = result @ concat (map (contribution pj fs directory) items)"
  using assms
proof (induction items arbitrary: result)
  case Nil
  then show ?case by simp
next
  case (Cons item items)
  from Cons.prems obtain mid where mid: "scan_item pj fs directory item result = Inr mid"
    and rest: "scan_items pj fs directory items mid = Inr result'"
    by (auto split: sum.splits)
  from scan_item_contribution [OF mid] Cons.IH [OF rest] show ?case by simp
qed

lemma readdirSync_themes_fs:
  "readdirSync themes_fs ''/wp/themes'' = Inr [''foo'', ''index.php'', ''bar'', ''baz'']"
  by (simp add: readdirSync_def themes_fs_def)

lemma file_version_themes_fs:
  "file_version themes_fs ''/wp/themes/foo/style.css'' = Some ''2.3.1''"
  "file_version themes_fs ''/wp/themes/foo/foo.php'' = Some ''2.3.1''"
  by (simp_all add: file_version_def themes_fs_def versionRegex_def ci_eq_def is_space_def
      is_digit_or_dot_def nth_opt_def)

text \<open>
  C7, amended: for every directory on which \<open>scanDirectory\<close> completes, the returned
  list is, child by child in the order of the listing, what each child contributes:
  nothing for a child that is not a directory; for a child directory, one item with the
  child's name if its \<open>style.css\<close> yields a version, followed by one item with the child's
  name if its main PHP file (\<open><child>/<child>.php\<close>, or else \<open><child>.php\<close>) yields a
  version. Hence the items named after a child are at most twice as many as the entries
  of that name in the listing (each child directory contributes at most two), and a
  child directory whose \<open>style.css\<close> and \<open><child>/<child>.php\<close> both yield a version
  contributes exactly two items, both with its name, one for each version.
\<close>

theorem scanDirectory_at_most_two_per_child:
  assumes "scanDirectory pj fs directory = Inr result"
    and "readdirSync fs directory = Inr items"
  shows "result = concat (map (contribution pj fs directory) items)
    \<and> length (filter (\<lambda>i. name i = child) result) \<le> 2 * count_list items child
    \<and> (\<forall>item names sv pv.
          fs (pj [directory, item]) = Some (Dir names)
          \<and> file_version fs (pj [pj [directory, item], ''style.css'']) = Some sv \<and> sv \<noteq> []
          \<and> file_version fs (pj [pj [directory, item], item @ ''.php'']) = Some pv \<and> pv \<noteq> []
          \<longrightarrow> contribution pj fs directory item
                = [\<lparr> name = item, version = sv \<rparr>, \<lparr> name = item, version = pv \<rparr>])"
proof (intro conjI allI impI)
  from assms have run: "scan_items pj fs directory items [] = Inr result"
    by (simp add: scanDirectory_def)
  from scan_items_contribution [OF run]
  show "result = concat (map (contribution pj fs directory) items)"
    by simp
  from scan_items_count [OF run, of child]
  show "length (filter (\<lambda>i. name i = child) result) \<le> 2 * count_list items child"
    by simp
next
  fix item names sv pv
  assume "fs (pj [directory, item]) = Some (Dir names)
          \<and> file_version fs (pj [pj [directory, item], ''style.css'']) = Some sv \<and> sv \<noteq> []
          \<and> file_version fs (pj [pj [directory, item], item @ ''.php'']) = Some pv \<and> pv \<noteq> []"
  then show "contribution pj fs directory item
      = [\<lparr> name = item, version = sv \<rparr>, \<lparr> name = item, version = pv \<rparr>]"
    by (simp add: contribution_def)
qed

text \<open>
  Witness for C7: the themes folder, where \<open>foo\<close> contributes two items, \<open>bar\<close> one, and
  \<open>baz\<close> and the file \<open>index.php\<close> none.
\<close>

theorem scanDirectory_at_most_two_per_child_witness:
  "scanDirectory (join_with ''/'') themes_fs ''/wp/themes''
     = Inr [\<lparr> name = ''foo'', version = ''2.3.1'' \<rparr>, \<lparr> name = ''foo'', version = ''2.3.1'' \<rparr>,
            \<lparr> name = ''bar'', version = ''1.0'' \<rparr>]
   \<and> concat (map (contribution (join_with ''/'') themes_fs ''/wp/themes'')
         [''foo'', ''index.php'', ''bar'', ''baz''])
     = [\<lparr> name = ''foo'', version = ''2.3.1'' \<rparr>, \<lparr> name = ''foo'', version = ''2.3.1'' \<rparr>,
        \<lparr> name = ''bar'', version = ''1.0'' \<rparr>]
   \<and> contribution (join_with ''/'') themes_fs ''/wp/themes'' ''foo''
     = [\<lparr> name = ''foo'', version = ''2.3.1'' \<rparr>, \<lparr> name = ''foo'', version = ''2.3.1'' \<rparr>]"
proof -
  note scanned = scanDirectory_at_most_two_per_child
    [OF scanDirectory_themes_fs readdirSync_themes_fs, of "''foo''"]
  from scanned have listed: "[\<lparr> name = ''foo'', version = ''2.3.1'' \<rparr>,
        \<lparr> name = ''foo'', version = ''2.3.1'' \<rparr>, \<lparr> name = ''bar'', version = ''1.0'' \<rparr>]
      = concat (map (contribution (join_with ''/'') themes_fs ''/wp/themes'')
          [''foo'', ''index.php'', ''bar'', ''baz''])"
    by (rule conjunct1)
  from scanned have both: "\<forall>item names sv pv.
          themes_fs (join_with ''/'' [''/wp/themes'', item]) = Some (Dir names)
          \<and> file_version themes_fs (join_with ''/'' [join_with ''/'' [''/wp/themes'', item], ''style.css''])
              = Some sv \<and> sv \<noteq> []
          \<and> file_version themes_fs (join_with ''/'' [join_with ''/'' [''/wp/themes'', item], item @ ''.php''])
              = Some pv \<and> pv \<noteq> []
          \<longrightarrow> contribution (join_with ''/'') themes_fs ''/wp/themes'' item
                = [\<lparr> name = item, version = sv \<rparr>, \<lparr> name = item, version = pv \<rparr>]"
    by (rule conjunct2 [THEN conjunct2])
  have dir: "themes_fs (join_with ''/'' [''/wp/themes'', ''foo'']) = Some (Dir [''style.css'', ''foo.php''])"
    by (simp add: themes_fs_def)
  have "contribution (join_with ''/'') themes_fs ''/wp/themes'' ''foo''
      = [\<lparr> name = ''foo'', version = ''2.3.1'' \<rparr>, \<lparr> name = ''foo'', version = ''2.3.1'' \<rparr>]"
    using both [rule_format, of "''foo''" "[''style.css'', ''foo.php'']" "''2.3.1''" "''2.3.1''"]
      dir file_version_themes_fs
    by simp
  with scanDirectory_themes_fs listed [symmetric] show ?thesis
    by (intro conjI)
qed

subsection \<open>\<open>downloadFile\<close>\<close>


lemma downloadFile_net302:
  "downloadFile (Suc (Suc 0)) net302 empty_world ''https://a.example/wp.zip'' ''/tmp/wp.zip''
     = Some (Resolved EmptyObject,
         \<lparr> files = [''/tmp/wp.zip'' \<mapsto> File ''PK-zip''],
           trace = [HttpGet ''https://a.example/wp.zip'', HttpGet ''https://b.example/wp.zip'',
                    CreateWriteStream ''/tmp/wp.zip''] \<rparr>)"
  by (simp add: net302_def empty_world_def existsSync_def)

text \<open>A call never takes events back: the trace it leaves extends the trace it found.\<close>

lemma downloadFile_trace_grows:
  "downloadFile fuel net w url targetFile = Some (outcome, w') \<Longrightarrow> prefix (trace w) (trace w')"
proof (induction fuel arbitrary: w url outcome w')
  case 0
  then show ?case by simp
next
  case (Suc fuel)
  show ?case
  proof (cases "existsSync (files w) targetFile")
    case True
    with Suc.prems show ?thesis by simp
  next
    case False
    let ?w1 = "w\<lparr> trace := trace w @ [HttpGet url] \<rparr>"
    show ?thesis
    proof (cases "net url")
      case (TransportError m)
      with False Suc.prems show ?thesis by (auto simp: Let_def)
    next
      case (Response r)
      with False Suc.prems Suc.IH [of ?w1] show ?thesis
        by (auto simp: Let_def split: if_splits option.splits dest: append_prefixD)
    qed
  qed
qed

text \<open>A call that finds no target file sends its request first.\<close>

lemma downloadFile_not_skipped:
  assumes "\<not> existsSync (files w) targetFile"
    and "downloadFile fuel net w url targetFile = Some (outcome, w')"
  shows "prefix (trace w @ [HttpGet url]) (trace w')"
proof (cases fuel)
  case 0
  with assms show ?thesis by simp
next
  case (Suc n)
  let ?w1 = "w\<lparr> trace := trace w @ [HttpGet url] \<rparr>"
  show ?thesis
  proof (cases "net url")
    case (TransportError m)
    with assms Suc show ?thesis by (auto simp: Let_def)
  next
    case (Response r)
    with assms Suc downloadFile_trace_grows [of n net ?w1] show ?thesis
      by (auto simp: Let_def split: if_splits option.splits)
  qed
qed





text \<open>
  C10: for every fetch whose target file does not exist and whose response has a status
  code of 400 or more, \<open>downloadFile\<close> rejects (with the status text) having sent its
  request and opened no write stream: the files are as before, the target file still
  does not exist, and a later fetch of the same target is not skipped by the check that
  the file exists, for it sends its request.
\<close>

theorem downloadFile_error_status_leaves_no_file:
  assumes "\<not> existsSync (files w) targetFile"
    and "net url = Response response"
    and "statusCode response = Some code" and "400 \<le> code"
  shows "\<exists>w'. downloadFile (Suc fuel) net w url targetFile
            = Some (Rejected (rethrown (statusMessage response)), w')
          \<and> trace w' = trace w @ [HttpGet url]
          \<and> files w' = files w
          \<and> \<not> existsSync (files w') targetFile
          \<and> (\<forall>fuel' url' outcome w''.
                downloadFile fuel' net w' url' targetFile = Some (outcome, w'')
                \<longrightarrow> prefix (trace w' @ [HttpGet url']) (trace w''))"
proof -
  let ?w' = "w\<lparr> trace := trace w @ [HttpGet url] \<rparr>"
  have run: "downloadFile (Suc fuel) net w url targetFile
      = Some (Rejected (rethrown (statusMessage response)), ?w')"
    using assms by (simp add: Let_def)
  have absent: "\<not> existsSync (files ?w') targetFile"
    using assms(1) by simp
  have later: "prefix (trace ?w' @ [HttpGet url']) (trace w'')"
    if "downloadFile fuel' net ?w' url' targetFile = Some (outcome, w'')"
    for fuel' url' outcome w''
    using downloadFile_not_skipped [OF absent that] .
  from run absent later show ?thesis
    by (intro exI [of _ ?w']) auto
qed

text \<open>
  Witness for C10: a URL that answers 404 Not Found.
\<close>

theorem downloadFile_error_status_leaves_no_file_witness:
  "\<exists>w'. downloadFile (Suc 0) net302 empty_world ''https://c.example/gone.zip'' ''/tmp/wp.zip''
            = Some (Rejected ''Error: Not Found'', w')
     \<and> trace w' = [HttpGet ''https://c.example/gone.zip'']
     \<and> files w' = Map.empty
     \<and> \<not> existsSync (files w') ''/tmp/wp.zip''"
proof -
  have absent: "\<not> existsSync (files empty_world) ''/tmp/wp.zip''"
    by (simp add: existsSync_def empty_world_def)
  have reply: "net302 ''https://c.example/gone.zip''
      = Response \<lparr> statusCode = Some 404, statusMessage = ''Not Found'', location = None,
          body = ''no such page'' \<rparr>"
    by (simp add: net302_def)
  have "statusCode \<lparr> statusCode = Some 404, statusMessage = ''Not Found'', location = None,
          body = ''no such page'' \<rparr> = Some 404" and "(400::nat) \<le> 404"
    by simp_all
  from downloadFile_error_status_leaves_no_file
    [where net = net302 and url = "''https://c.example/gone.zip''" and fuel = 0,
      OF absent reply this]
  obtain w' where "downloadFile (Suc 0) net302 empty_world ''https://c.example/gone.zip'' ''/tmp/wp.zip''
            = Some (Rejected (rethrown ''Not Found''), w')"
    and "trace w' = trace empty_world @ [HttpGet ''https://c.example/gone.zip'']"
    and "files w' = files empty_world"
    and "\<not> existsSync (files w') ''/tmp/wp.zip''"
    by auto
  then show ?thesis
    by (intro exI [of _ w']) (simp add: rethrown_def empty_world_def)
qed


subsection \<open>\<open>uncommentedLines\<close>\<close>

lemma index_of_None_iff: "index_of needle s = None \<longleftrightarrow> \<not> sublist needle s"
  by (induction s) (auto simp: sublist_Cons_right)

text \<open>Before its first occurrence there is no occurrence of the needle.\<close>

lemma index_of_take:
  assumes "index_of needle s = Some i" and "needle \<noteq> []"
  shows "\<not> sublist needle (take i s)"
  using assms
proof (induction s arbitrary: i)
  case Nil
  then show ?case by (simp split: if_splits)
next
  case (Cons c cs)
  show ?case
  proof (cases "prefix needle (c # cs)")
    case True
    with Cons.prems show ?thesis by simp
  next
    case False
    with Cons.prems obtain j where j: "index_of needle cs = Some j" and i: "i = Suc j"
      by auto
    have "\<not> prefix needle (c # take j cs)"
    proof
      assume "prefix needle (c # take j cs)"
      moreover have "prefix (c # take j cs) (c # cs)"
        by (simp add: take_is_prefix)
      ultimately have "prefix needle (c # cs)"
        by (rule prefix_order.trans)
      with False show False by simp
    qed
    with Cons.IH [OF j Cons.prems(2)] i show ?thesis
      by (simp add: sublist_Cons_right)
  qed
qed

text \<open>A line without \<open>/*\<close> and \<open>//\<close>, met outside a block comment, stays as it is.\<close>

lemma strip_line_plain:
  assumes "\<not> sublist ''/*'' l" and "\<not> sublist ''//'' l"
  shows "strip_line False l = (False, l)"
  using assms by (simp add: strip_line_def index_of_None_iff [symmetric])

lemma strip_lines_plain:
  assumes "\<forall>l \<in> set ls. \<not> sublist ''/*'' l \<and> \<not> sublist ''//'' l"
  shows "strip_lines False acc ls = acc @ concat (map (\<lambda>l. l @ [CHR 0x0A]) ls)"
  using assms by (induction ls arbitrary: acc) (simp_all add: strip_line_plain)

lemma concat_split_on: "concat (map (\<lambda>l. l @ [d]) (split_on d s)) = s @ [d]"
  by (induction s) (auto split: list.splits simp: split_on_not_Nil)

lemma split_on_sublist: "l \<in> set (split_on d s) \<Longrightarrow> sublist l s"
proof (induction s arbitrary: l)
  case Nil
  then show ?case by simp
next
  case (Cons c cs)
  show ?case
  proof (cases "c = d")
    case True
    with Cons show ?thesis by (auto simp: sublist_Cons_right)
  next
    case False
    obtain w ws where sp: "split_on d cs = w # ws"
      using split_on_not_Nil [of d cs] by (cases "split_on d cs") auto
    have pw: "prefix w cs"
      using sp
    proof (induction cs arbitrary: w ws)
      case Nil
      then show ?case by simp
    next
      case (Cons a as)
      then show ?case by (auto split: if_splits list.splits)
    qed
    from Cons.prems False sp have "l = c # w \<or> l \<in> set ws" by simp
    then show ?thesis
    proof
      assume "l = c # w"
      with pw show ?thesis by (simp add: sublist_Cons_right)
    next
      assume "l \<in> set ws"
      with sp Cons.IH [of l] show ?thesis by (simp add: sublist_Cons_right)
    qed
  qed
qed

text \<open>On a text without \<open>/*\<close> and \<open>//\<close> the function appends a newline and does no more.\<close>

lemma uncommentedLines_plain:
  assumes "\<not> sublist ''/*'' s" and "\<not> sublist ''//'' s"
  shows "uncommentedLines s = s @ [CHR 0x0A]"
proof -
  have "\<forall>l \<in> set (split_on CHR 0x0A s). \<not> sublist ''/*'' l \<and> \<not> sublist ''//'' l"
    using assms split_on_sublist sublist_order.order.trans by blast
  then show ?thesis
    by (simp add: uncommentedLines_def strip_lines_plain concat_split_on)
qed

lemma no_dslash_append:
  assumes "\<not> sublist ''//'' a" and "\<not> sublist ''//'' b"
    and "a = [] \<or> last a \<noteq> CHR ''/'' \<or> b = [] \<or> hd b \<noteq> CHR ''/''"
  shows "\<not> sublist ''//'' (a @ b)"
proof
  assume "sublist ''//'' (a @ b)"
  with assms(1,2) obtain x1 x2 where "''//'' = x1 @ x2" and suf: "suffix x1 a" and pre: "prefix x2 b"
    by (auto simp: sublist_append)
  then have e: "x1 @ x2 = ''//''"
    by (rule_tac sym)
  show False
  proof (cases x1)
    case Nil
    with e pre assms(2) show False by auto
  next
    case (Cons c r)
    with e have c: "c = CHR ''/''" and r: "r @ x2 = ''/''"
      by simp_all
    show False
    proof (cases r)
      case Nil
      with r have "x2 = ''/''" by simp
      with pre have "b \<noteq> [] \<and> hd b = CHR ''/''"
        by (auto simp: prefix_def)
      moreover from suf Cons Nil c have "a \<noteq> [] \<and> last a = CHR ''/''"
        by (auto simp: suffix_def)
      ultimately show False using assms(3) by simp
    next
      case (Cons c' r')
      with r have "c' = CHR ''/''" and "r' = []" and "x2 = []"
        by simp_all
      with suf \<open>x1 = c # r\<close> Cons c assms(1) show False by auto
    qed
  qed
qed

lemma cut_line_comment:
  "\<not> sublist ''//'' (case index_of ''//'' x of Some i \<Rightarrow> take i x | None \<Rightarrow> x)"
proof (cases "index_of ''//'' x")
  case None
  then have "\<not> sublist ''//'' x"
    by (rule iffD1 [OF index_of_None_iff])
  with None show ?thesis by simp
next
  case (Some i)
  then have "\<not> sublist ''//'' (take i x)"
    by (rule index_of_take) simp
  with Some show ?thesis by simp
qed

lemma strip_line_in_block:
  "strip_line True l =
     (case index_of ''*/'' l of
        Some e \<Rightarrow> strip_line False (drop (e + 2) l)
      | None \<Rightarrow> (True, []))"
  by (simp add: strip_line_def split: option.splits)

lemma strip_line_outside_no_dslash: "\<not> sublist ''//'' (snd (strip_line False l))"
proof (cases "index_of ''/*'' l")
  case None
  then show ?thesis
    using cut_line_comment [of l] by (simp add: strip_line_def)
next
  case (Some st)
  show ?thesis
  proof (cases "index_of ''*/'' l")
    case None
    with Some show ?thesis
      using cut_line_comment [of "take st l"] by (simp add: strip_line_def)
  next
    case (Some en)
    with \<open>index_of ''/*'' l = Some st\<close> show ?thesis
      using cut_line_comment [of "take st l @ drop (Suc (Suc en)) l"] by (simp add: strip_line_def)
  qed
qed

text \<open>No line that \<open>strip_line\<close> returns holds \<open>//\<close>, and so no text that
  \<open>uncommentedLines\<close> returns does: the lines are joined by newlines.\<close>

lemma strip_line_no_dslash: "\<not> sublist ''//'' (snd (strip_line b l))"
proof (cases b)
  case False
  then show ?thesis by (simp add: strip_line_outside_no_dslash)
next
  case True
  then show ?thesis
    by (cases "index_of ''*/'' l") (simp_all add: strip_line_in_block strip_line_outside_no_dslash)
qed

lemma strip_lines_no_dslash:
  assumes "\<not> sublist ''//'' acc" and "acc = [] \<or> last acc = CHR 0x0A"
  shows "\<not> sublist ''//'' (strip_lines b acc ls)"
  using assms
proof (induction ls arbitrary: b acc)
  case Nil
  then show ?case by simp
next
  case (Cons l ls)
  obtain b' newLine where sl: "strip_line b l = (b', newLine)"
    by (cases "strip_line b l")
  have nl: "\<not> sublist ''//'' newLine"
    using strip_line_no_dslash [of b l] sl by simp
  have "\<not> sublist ''//'' (newLine @ [CHR 0x0A])"
    by (rule no_dslash_append [OF nl]) (simp_all add: sublist_Cons_right)
  moreover have "acc = [] \<or> last acc \<noteq> CHR ''/'' \<or> newLine @ [CHR 0x0A] = []
      \<or> hd (newLine @ [CHR 0x0A]) \<noteq> CHR ''/''"
    using Cons.prems(2) by auto
  ultimately have "\<not> sublist ''//'' (acc @ newLine @ [CHR 0x0A])"
    by (rule no_dslash_append [OF Cons.prems(1)])
  then have "\<not> sublist ''//'' (strip_lines b' (acc @ newLine @ [CHR 0x0A]) ls)"
    by (rule Cons.IH) simp
  with sl show ?case by simp
qed

lemma uncommentedLines_no_dslash: "\<not> sublist ''//'' (uncommentedLines t)"
  unfolding uncommentedLines_def by (rule strip_lines_no_dslash) simp_all

lemma uncommentedLines_second_comment_stays:
  "uncommentedLines ''/* a */ b /* c */'' = '' b /* c */'' @ [CHR 0x0A]"
  by (simp add: uncommentedLines_def strip_line_def)

lemma uncommentedLines_example:
  "uncommentedLines (''a /* b */ c // d'' @ [CHR 0x0A] @ ''e /* f'' @ [CHR 0x0A] @ ''g */ h'')
     = ''a  c '' @ [CHR 0x0A] @ ''e '' @ [CHR 0x0A] @ '' h'' @ [CHR 0x0A]"
  by (simp add: uncommentedLines_def strip_line_def)

text \<open>
  C3, as stated, fails: on the text \<open>x\<close> the first application gives \<open>x\<close> and a newline
  and the second gives \<open>x\<close> and two newlines. Where the first result still holds \<open>/*\<close>,
  as on the text \<open>/* a */ b /* c */\<close>, the second application does more than append a
  newline.
\<close>

theorem uncommentedLines_not_idempotent:
  "uncommentedLines (uncommentedLines ''x'') \<noteq> uncommentedLines ''x''
   \<and> uncommentedLines (uncommentedLines ''/* a */ b /* c */'')
       \<noteq> uncommentedLines ''/* a */ b /* c */'' @ [CHR 0x0A]"
  by (simp add: uncommentedLines_def strip_line_def)

text \<open>
  C3, amended: for every input text whose result under \<open>uncommentedLines\<close> holds no
  opening marker \<open>/*\<close> of a block comment, applying \<open>uncommentedLines\<close> twice yields the
  result of applying it once followed by one more newline.
\<close>

theorem uncommentedLines_twice:
  assumes "\<not> sublist ''/*'' (uncommentedLines t)"
  shows "uncommentedLines (uncommentedLines t) = uncommentedLines t @ [CHR 0x0A]"
  using assms uncommentedLines_no_dslash by (rule uncommentedLines_plain)

text \<open>
  Witness for C3: a text of three lines with a block comment inside a line, a line
  comment, and a block comment over two lines.
\<close>

theorem uncommentedLines_twice_witness:
  "uncommentedLines
     (uncommentedLines (''a /* b */ c // d'' @ [CHR 0x0A] @ ''e /* f'' @ [CHR 0x0A] @ ''g */ h''))
   = uncommentedLines (''a /* b */ c // d'' @ [CHR 0x0A] @ ''e /* f'' @ [CHR 0x0A] @ ''g */ h'')
       @ [CHR 0x0A]"
proof (rule uncommentedLines_twice)
  show "\<not> sublist ''/*''
      (uncommentedLines (''a /* b */ c // d'' @ [CHR 0x0A] @ ''e /* f'' @ [CHR 0x0A] @ ''g */ h''))"
    by (simp only: uncommentedLines_example) (simp add: sublist_Cons_right)
qed


subsection \<open>\<open>parseWpConfig\<close>\<close>

lemma set_property_other: "key \<noteq> k \<Longrightarrow> set_property obj key val k = obj k"
  by (simp add: set_property_def)

lemma set_property_same: "k \<noteq> ''__proto__'' \<Longrightarrow> set_property obj k val k = Some val"
  by (simp add: set_property_def)

lemma assign_matches_no_key:
  assumes "\<forall>m \<in> set ms. \<forall>v. match_pair m \<noteq> Some (k, v)"
  shows "assign_matches obj ms k = obj k"
  using assms
proof (induction ms arbitrary: obj)
  case Nil
  then show ?case by simp
next
  case (Cons m ms)
  show ?case
  proof (cases "match_pair m")
    case None
    with Cons show ?thesis by simp
  next
    case (Some kv)
    obtain key val where kv: "kv = (key, val)" by (cases kv)
    with Some Cons.prems have "key \<noteq> k" by auto
    with Cons Some kv show ?thesis by (simp add: set_property_other)
  qed
qed

text \<open>
  The assignments in the order of the matches: for a name other than \<open>__proto__\<close>, the
  value of its last match is the one the object holds.
\<close>

lemma assign_matches_last:
  assumes "match_pair m = Some (k, v)" and "k \<noteq> ''__proto__''"
    and "\<forall>m' \<in> set after. \<forall>v'. match_pair m' \<noteq> Some (k, v')"
  shows "assign_matches obj (before @ m # after) k = Some v"
  using assms
proof (induction before arbitrary: obj)
  case Nil
  then show ?case by (simp add: assign_matches_no_key set_property_same)
next
  case (Cons b before)
  then show ?case by (cases "match_pair b") auto
qed

text \<open>
  In the result of \<open>parseWpConfig\<close>, a constant name or variable name other than
  \<open>__proto__\<close> that is matched, however often, is mapped to the value of its last match.
\<close>

lemma parseWpConfig_last_occurrence_wins:
  assumes "parseWpConfig pj fs wpFolder = Some cfg"
    and "readFileSync fs (pj [wpFolder, ''wp-config.php'']) = Inr text"
    and "match_pair m = Some (k, v)" and "k \<noteq> ''__proto__''"
    and "\<forall>m' \<in> set after. \<forall>v'. match_pair m' \<noteq> Some (k, v')"
  shows "rx_matchAll defineRegex (uncommentedLines text) = before @ m # after
           \<longrightarrow> constants cfg k = Some v"
    and "rx_matchAll variableRegex (uncommentedLines text) = before @ m # after
           \<longrightarrow> variables cfg k = Some v"
proof -
  from assms(1,2) have cfg: "cfg = \<lparr> constants =
        assign_matches Map.empty (rx_matchAll defineRegex (uncommentedLines text)),
      variables = assign_matches Map.empty (rx_matchAll variableRegex (uncommentedLines text)) \<rparr>"
    by (simp add: parseWpConfig_def Let_def)
  show "rx_matchAll defineRegex (uncommentedLines text) = before @ m # after
           \<longrightarrow> constants cfg k = Some v"
    using assign_matches_last [OF assms(3,4,5)] by (simp add: cfg)
  show "rx_matchAll variableRegex (uncommentedLines text) = before @ m # after
           \<longrightarrow> variables cfg k = Some v"
    using assign_matches_last [OF assms(3,4,5)] by (simp add: cfg)
qed

lemma matches_config_fs:
  "rx_matchAll variableRegex
     (uncommentedLines ''define('DB_NAME','x');$dbname = 'a';define('DB_NAME','y');$dbname = 'b';'')
     = [[''dbname'', ''a''], [''dbname'', ''b'']]"
  "rx_matchAll defineRegex
     (uncommentedLines ''define('DB_NAME','x');$dbname = 'a';define('DB_NAME','y');$dbname = 'b';'')
     = [[''DB_NAME'', ''x''], [''DB_NAME'', ''y'']]"
  by (simp_all add: rx_matchAll.simps uncommentedLines_def strip_line_def variableRegex_def
      defineRegex_def is_space_def is_quote_def not_quote_def is_dot_def ident_start_def
      ident_char_def ci_eq_def not_squote_def)

text \<open>The repeated \<open>$dbname\<close> of the specification: the last assigned value is returned.\<close>

lemma parseWpConfig_repeated_dbname:
  "\<exists>cfg. parseWpConfig (join_with ''/'') config_fs ''/wp'' = Some cfg
     \<and> variables cfg ''dbname'' = Some ''b'' \<and> constants cfg ''DB_NAME'' = Some ''y''"
  by (simp add: parseWpConfig_def Let_def readFileSync_def config_fs_def matches_config_fs
      set_property_def)

lemma matches_proto_fs:
  "rx_matchAll variableRegex (uncommentedLines ''$__proto__ = 'a';$__proto__ = 'b';'')
     = [[''__proto__'', ''a''], [''__proto__'', ''b'']]"
  by (simp add: rx_matchAll.simps uncommentedLines_def strip_line_def variableRegex_def
      is_space_def is_quote_def not_quote_def is_dot_def ident_start_def ident_char_def)

text \<open>
  C9, at the failing input: in the file \<open>$__proto__ = 'a';$__proto__ = 'b';\<close> the variable
  name \<open>__proto__\<close> is matched twice, the last time with the value \<open>b\<close>, and the
  \<open>variables\<close> of the result hold no value for it.
\<close>

theorem parseWpConfig_proto_not_recorded:
  "\<exists>cfg. parseWpConfig (join_with ''/'') proto_fs ''/wp'' = Some cfg
     \<and> variables cfg ''__proto__'' = None
     \<and> rx_matchAll variableRegex (uncommentedLines ''$__proto__ = 'a';$__proto__ = 'b';'')
         = [[''__proto__'', ''a''], [''__proto__'', ''b'']]"
  by (simp add: parseWpConfig_def Let_def readFileSync_def proto_fs_def matches_proto_fs
      set_property_def)

subsection \<open>\<open>replaceDbConstant\<close>\<close>

text \<open>At the statement \<open>define( 'DB_NAME', 'old' );\<close> the regular expression has one
  match, which ends with the statement.\<close>

lemma run_at_old:
  "rx_run (dbConstantRegex ''DB_NAME'') (canonical_define ''DB_NAME'' ''old'' @ r) = [(r, [])]"
  by (simp add: dbConstantRegex_def canonical_define_def is_space_def not_squote_def)

lemma rx_search_found:
  assumes "rx_run rx q \<noteq> []"
  shows "rx_search rx (p @ q) \<noteq> None"
proof (induction p)
  case Nil
  from assms show ?case
    by (cases q) (auto split: list.splits)
next
  case (Cons c p)
  then show ?case
    by (auto split: list.splits option.splits)
qed

text \<open>The search returns the match at the first index that has one.\<close>

lemma rx_search_first:
  assumes "\<forall>i<length p. rx_run rx (drop i (p @ q)) = []"
    and "rx_run rx q = (r, g) # rest"
  shows "rx_search rx (p @ q) = Some (p, r, g)"
  using assms
proof (induction p)
  case Nil
  then show ?case by (cases q) auto
next
  case (Cons c p)
  from Cons.prems(1) have here: "rx_run rx (c # p @ q) = []"
    by (auto dest: spec [of _ 0])
  have "\<forall>i<length p. rx_run rx (drop i (p @ q)) = []"
  proof (intro allI impI)
    fix i assume "i < length p"
    then have "Suc i < length (c # p)" by simp
    with Cons.prems(1) have "rx_run rx (drop (Suc i) ((c # p) @ q)) = []" by blast
    then show "rx_run rx (drop i (p @ q)) = []" by simp
  qed
  from Cons.IH [OF this Cons.prems(2)] here show ?case by simp
qed

lemma append_eq_take_drop:
  "w = x1 @ x2 \<longleftrightarrow> (\<exists>n\<le>length w. x1 = take n w \<and> x2 = drop n w)"
proof
  assume "w = x1 @ x2"
  then show "\<exists>n\<le>length w. x1 = take n w \<and> x2 = drop n w"
    by (intro exI [of _ "length x1"]) simp
next
  assume "\<exists>n\<le>length w. x1 = take n w \<and> x2 = drop n w"
  then show "w = x1 @ x2" by auto
qed

lemma upto_five: "n \<le> 5 \<Longrightarrow> n = 0 \<or> n = 1 \<or> n = 2 \<or> n = 3 \<or> n = 4 \<or> n = (5::nat)"
  by arith

text \<open>No occurrence of \<open>'old'\<close> lies across an end of the new statement.\<close>

lemma old_not_across_start:
  assumes "quoted ''old'' = x1 @ x2" and "prefix x2 (canonical_define ''DB_NAME'' ''new'' @ r)"
  shows "x2 = []"
proof -
  from assms(1) obtain n where "n \<le> length (quoted ''old'')" and x2: "x2 = drop n (quoted ''old'')"
    using append_eq_take_drop [of "quoted ''old''" x1 x2] by blast
  then have n: "n \<le> 5"
    by (simp add: quoted_def)
  from upto_five [OF n] assms(2) show ?thesis
    unfolding x2 by (elim disjE) (simp_all add: quoted_def canonical_define_def)
qed

lemma old_not_across_end:
  assumes "quoted ''old'' = x1 @ x2" and "suffix x1 (canonical_define ''DB_NAME'' ''new'')"
  shows "x1 = []"
proof -
  from assms(1) obtain n where "n \<le> length (quoted ''old'')" and x1: "x1 = take n (quoted ''old'')"
    using append_eq_take_drop [of "quoted ''old''" x1 x2] by blast
  then have n: "n \<le> 5"
    by (simp add: quoted_def)
  from upto_five [OF n] assms(2) show ?thesis
    unfolding x1 by (elim disjE) (simp_all add: quoted_def canonical_define_def suffix_to_prefix)
qed

lemma old_only_outside:
  "sublist (quoted ''old'') (p @ canonical_define ''DB_NAME'' ''new'' @ r)
     \<longleftrightarrow> sublist (quoted ''old'') p \<or> sublist (quoted ''old'') r"
proof
  assume "sublist (quoted ''old'') p \<or> sublist (quoted ''old'') r"
  then show "sublist (quoted ''old'') (p @ canonical_define ''DB_NAME'' ''new'' @ r)"
    by (auto simp: sublist_append)
next
  let ?N = "canonical_define ''DB_NAME'' ''new''"
  assume whole: "sublist (quoted ''old'') (p @ ?N @ r)"
  have inner: "sublist (quoted ''old'') r" if "sublist (quoted ''old'') (?N @ r)"
  proof -
    from that consider "sublist (quoted ''old'') ?N" | "sublist (quoted ''old'') r"
      | x1 x2 where "quoted ''old'' = x1 @ x2" "suffix x1 ?N" "prefix x2 r"
      by (auto simp: sublist_append)
    then show ?thesis
    proof cases
      case 1
      then show ?thesis
        by (simp add: quoted_def canonical_define_def sublist_Cons_right)
    next
      case 2
      then show ?thesis .
    next
      case 3
      with old_not_across_end [of x1 x2] have "prefix (quoted ''old'') r" by simp
      then show ?thesis by (rule prefix_imp_sublist)
    qed
  qed
  from whole consider "sublist (quoted ''old'') p" | "sublist (quoted ''old'') (?N @ r)"
    | x1 x2 where "quoted ''old'' = x1 @ x2" "suffix x1 p" "prefix x2 (?N @ r)"
    by (auto simp: sublist_append)
  then show "sublist (quoted ''old'') p \<or> sublist (quoted ''old'') r"
  proof cases
    case 1
    then show ?thesis by simp
  next
    case 2
    with inner show ?thesis by simp
  next
    case 3
    with old_not_across_start [of x1 x2 r] have "suffix (quoted ''old'') p" by simp
    then show ?thesis by (simp add: suffix_imp_sublist)
  qed
qed

lemma replaceDbConstant_two_defines:
  "replaceDbConstant ''define( 'DB_NAME', 'a' ); define( 'DB_NAME', 'old' );'' ''DB_NAME'' ''new''
     = ''define( 'DB_NAME', 'new' ); define( 'DB_NAME', 'old' );''"
  by (simp add: replaceDbConstant_def js_replace_def dbConstantRegex_def canonical_define_def
      is_space_def not_squote_def)

text \<open>
  C6, as stated, fails: the text \<open>define( 'DB_NAME', 'a' ); define( 'DB_NAME', 'old' );\<close>
  contains \<open>define( 'DB_NAME', 'old' );\<close>; only its first \<open>DB_NAME\<close> statement is
  replaced, and the result still contains \<open>'old'\<close>.
\<close>

theorem replaceDbConstant_old_stays:
  "sublist (canonical_define ''DB_NAME'' ''old'')
     ''define( 'DB_NAME', 'a' ); define( 'DB_NAME', 'old' );''
   \<and> sublist (quoted ''old'')
       (replaceDbConstant ''define( 'DB_NAME', 'a' ); define( 'DB_NAME', 'old' );''
          ''DB_NAME'' ''new'')"
  by (simp only: replaceDbConstant_two_defines)
    (simp add: canonical_define_def quoted_def sublist_Cons_right)

text \<open>
  C6, amended: for every input text containing \<open>define( 'DB_NAME', 'old' );\<close>,
  \<open>replaceDbConstant(input, 'DB_NAME', 'new')\<close> yields text that contains
  \<open>define( 'DB_NAME', 'new' );\<close>. It replaces the first \<open>DB_NAME\<close> statement of the
  text only: when no such statement starts before the one with \<open>'old'\<close>, the result is
  the input with that statement replaced by \<open>define( 'DB_NAME', 'new' );\<close>, and it
  contains \<open>'old'\<close> exactly when the input does before or after the statement.
\<close>

theorem replaceDbConstant_first_define:
  assumes "configContent = p @ canonical_define ''DB_NAME'' ''old'' @ r"
  shows "sublist (canonical_define ''DB_NAME'' ''new'')
           (replaceDbConstant configContent ''DB_NAME'' ''new'')
    \<and> ((\<forall>i<length p. \<not> define_starts_at ''DB_NAME'' configContent i)
         \<longrightarrow> replaceDbConstant configContent ''DB_NAME'' ''new''
               = p @ canonical_define ''DB_NAME'' ''new'' @ r
             \<and> (sublist (quoted ''old'') (replaceDbConstant configContent ''DB_NAME'' ''new'')
                  \<longleftrightarrow> sublist (quoted ''old'') p \<or> sublist (quoted ''old'') r))"
proof (intro conjI impI)
  let ?rx = "dbConstantRegex ''DB_NAME''"
  let ?q = "canonical_define ''DB_NAME'' ''old'' @ r"
  have "rx_run ?rx ?q \<noteq> []"
    by (simp add: run_at_old)
  then have "rx_search ?rx (p @ ?q) \<noteq> None"
    by (rule rx_search_found)
  then obtain b r' g where "rx_search ?rx configContent = Some (b, r', g)"
    using assms by auto
  then have "replaceDbConstant configContent ''DB_NAME'' ''new''
      = b @ canonical_define ''DB_NAME'' ''new'' @ r'"
    by (simp add: replaceDbConstant_def js_replace_def)
  then show "sublist (canonical_define ''DB_NAME'' ''new'')
      (replaceDbConstant configContent ''DB_NAME'' ''new'')"
    by simp
next
  let ?rx = "dbConstantRegex ''DB_NAME''"
  let ?q = "canonical_define ''DB_NAME'' ''old'' @ r"
  assume "\<forall>i<length p. \<not> define_starts_at ''DB_NAME'' configContent i"
  then have "\<forall>i<length p. rx_run ?rx (drop i (p @ ?q)) = []"
    using assms by (simp add: define_starts_at_def)
  then have "rx_search ?rx (p @ ?q) = Some (p, r, [])"
    using run_at_old by (rule rx_search_first)
  then have result: "replaceDbConstant configContent ''DB_NAME'' ''new''
      = p @ canonical_define ''DB_NAME'' ''new'' @ r"
    using assms by (simp add: replaceDbConstant_def js_replace_def)
  then show "replaceDbConstant configContent ''DB_NAME'' ''new''
      = p @ canonical_define ''DB_NAME'' ''new'' @ r" .
  show "sublist (quoted ''old'') (replaceDbConstant configContent ''DB_NAME'' ''new'')
      \<longleftrightarrow> sublist (quoted ''old'') p \<or> sublist (quoted ''old'') r"
    by (simp only: result old_only_outside)
qed

text \<open>
  Witness for C6: the statement after \<open><?php\<close> and before a closing tag.
\<close>

theorem replaceDbConstant_first_define_witness:
  "sublist (canonical_define ''DB_NAME'' ''new'')
     (replaceDbConstant (''<?php '' @ canonical_define ''DB_NAME'' ''old'' @ '' ?>'')
        ''DB_NAME'' ''new'')
   \<and> replaceDbConstant (''<?php '' @ canonical_define ''DB_NAME'' ''old'' @ '' ?>'')
        ''DB_NAME'' ''new''
      = ''<?php '' @ canonical_define ''DB_NAME'' ''new'' @ '' ?>''
   \<and> \<not> sublist (quoted ''old'')
        (replaceDbConstant (''<?php '' @ canonical_define ''DB_NAME'' ''old'' @ '' ?>'')
           ''DB_NAME'' ''new'')"
proof -
  have none_before: "\<not> define_starts_at ''DB_NAME''
      (''<?php '' @ canonical_define ''DB_NAME'' ''old'' @ '' ?>'') i" if "i < 6" for i
  proof -
    from that consider "i = 0" | "i = 1" | "i = 2" | "i = 3" | "i = 4" | "i = 5"
      by arith
    then show ?thesis
      by cases (simp_all add: define_starts_at_def dbConstantRegex_def canonical_define_def)
  qed
  have first: "\<forall>i<length ''<?php ''. \<not> define_starts_at ''DB_NAME''
      (''<?php '' @ canonical_define ''DB_NAME'' ''old'' @ '' ?>'') i"
    using none_before by simp
  have outside: "\<not> sublist (quoted ''old'') ''<?php ''" "\<not> sublist (quoted ''old'') '' ?>''"
    by (simp_all add: quoted_def sublist_Cons_right)
  note replaced = replaceDbConstant_first_define [OF refl, of "''<?php ''" "'' ?>''"]
  from replaced have "sublist (canonical_define ''DB_NAME'' ''new'')
     (replaceDbConstant (''<?php '' @ canonical_define ''DB_NAME'' ''old'' @ '' ?>'')
        ''DB_NAME'' ''new'')"
    by (rule conjunct1)
  moreover from replaced first have "replaceDbConstant (''<?php '' @ canonical_define ''DB_NAME'' ''old'' @ '' ?>'')
        ''DB_NAME'' ''new''
      = ''<?php '' @ canonical_define ''DB_NAME'' ''new'' @ '' ?>''
    \<and> (sublist (quoted ''old'')
        (replaceDbConstant (''<?php '' @ canonical_define ''DB_NAME'' ''old'' @ '' ?>'')
           ''DB_NAME'' ''new'')
       \<longleftrightarrow> sublist (quoted ''old'') ''<?php '' \<or> sublist (quoted ''old'') '' ?>'')"
    by (rule conjunct2 [THEN mp])
  ultimately show ?thesis
    using outside by blast
qed

end
